theory Spec2Isabelle
  imports Complex_Main
begin

section \<open>Values, exceptions and the remote platform\<close>

text \<open>
  The bot of \<^verbatim>\<open>pi_transfer_script.py\<close> talks to a remote payment platform over HTTP
  and inspects the JSON bodies it gets back with \<^verbatim>\<open>dict.get\<close> and Python's
  truthiness. The embedding keeps both: a JSON value is a \<open>json\<close>, Python's
  \<^verbatim>\<open>None\<close> is \<open>JNull\<close>, an object is an association list read with
  \<open>map_of\<close>, and a number is a Python \<^verbatim>\<open>int\<close> (unbounded) or a Python
  \<^verbatim>\<open>float\<close> (an IEEE binary64 value, see below). Functions keep the names of the methods they
  embed, without the leading underscores: \<open>init\<close> is \<^verbatim>\<open>__init__\<close>, and
  \<open>complete_payment_internal\<close> is \<^verbatim>\<open>_complete_payment\<close>. Logging is left out.
\<close>

subsection \<open>Python floats\<close>

text \<open>
  A Python \<^verbatim>\<open>float\<close> is an IEEE 754 binary64 value: a finite number \<open>Fin x\<close> (with
  \<open>x\<close> on the binary64 grid; the two zeros are one value here, they compare equal),
  an infinity, or NaN. \<open>round_double\<close> is the rounding every float operation ends
  with: to the nearest value of the grid, ties to the even significand, subnormals
  below \<open>2 ^ -1022\<close>, and an infinity from \<open>2 ^ 1024\<close> on. It is also how a decimal
  literal of the source (\<^verbatim>\<open>1650.0\<close>, \<^verbatim>\<open>0.01\<close>) or of a JSON body becomes a float.
\<close>

datatype pyfloat = Fin real | PInf | NInf | NaN

definition binade :: "real \<Rightarrow> int" where
  "binade x = max \<lfloor>log 2 \<bar>x\<bar>\<rfloor> (- 1022)"

definition ulp_of :: "real \<Rightarrow> real" where
  "ulp_of x = 2 powr of_int (binade x - 52)"

definition round_half_even :: "real \<Rightarrow> int" where
  "round_half_even q =
     (if q - of_int \<lfloor>q\<rfloor> < 1 / 2 then \<lfloor>q\<rfloor>
      else if q - of_int \<lfloor>q\<rfloor> > 1 / 2 then \<lfloor>q\<rfloor> + 1
      else if even \<lfloor>q\<rfloor> then \<lfloor>q\<rfloor> else \<lfloor>q\<rfloor> + 1)"

definition round_magnitude :: "real \<Rightarrow> real" where
  "round_magnitude x = of_int (round_half_even (\<bar>x\<bar> / ulp_of x)) * ulp_of x"

definition double_limit :: real where
  "double_limit = 2 ^ 1024"

definition round_double :: "real \<Rightarrow> pyfloat" where
  "round_double x =
     (if x = 0 then Fin 0
      else if round_magnitude x \<ge> double_limit then (if x > 0 then PInf else NInf)
      else Fin (sgn x * round_magnitude x))"

text \<open>Float addition \<^verbatim>\<open>a + b\<close>: the exact sum, rounded.\<close>

fun fadd :: "pyfloat \<Rightarrow> pyfloat \<Rightarrow> pyfloat" where
  "fadd NaN b = NaN"
| "fadd a NaN = NaN"
| "fadd PInf NInf = NaN"
| "fadd NInf PInf = NaN"
| "fadd PInf b = PInf"
| "fadd a PInf = PInf"
| "fadd NInf b = NInf"
| "fadd a NInf = NInf"
| "fadd (Fin x) (Fin y) = round_double (x + y)"

text \<open>Float comparison \<^verbatim>\<open>a >= b\<close>: false whenever a NaN is involved.\<close>

fun fge :: "pyfloat \<Rightarrow> pyfloat \<Rightarrow> bool" where
  "fge NaN b = False"
| "fge a NaN = False"
| "fge PInf b = True"
| "fge a NInf = True"
| "fge NInf b = False"
| "fge a PInf = False"
| "fge (Fin x) (Fin y) = (x \<ge> y)"

subsection \<open>JSON values\<close>

datatype json =
    JNull
  | JBool bool
  | JInt int
  | JFloat pyfloat
  | JStr string
  | JArr "json list"
  | JObj "(string \<times> json) list"

text \<open>The exceptions of the script that are not \<^verbatim>\<open>requests.RequestException\<close>.\<close>

datatype exn = AttributeError | TypeError | ValueError | OverflowError

text \<open>Python's \<^verbatim>\<open>bool(v)\<close>, as used by \<^verbatim>\<open>if v:\<close> and \<^verbatim>\<open>not v\<close>.\<close>

fun truthy :: "json \<Rightarrow> bool" where
  "truthy JNull = False"
| "truthy (JBool b) = b"
| "truthy (JInt n) = (n \<noteq> 0)"
| "truthy (JFloat f) = (f \<noteq> Fin 0)"
| "truthy (JStr s) = (s \<noteq> [])"
| "truthy (JArr xs) = (xs \<noteq> [])"
| "truthy (JObj kvs) = (kvs \<noteq> [])"

text \<open>
  \<^verbatim>\<open>v.get(k, d)\<close>: the value under \<open>k\<close>, or \<open>d\<close> when the key is missing. Only a
  dict has the method; on any other value Python raises \<^verbatim>\<open>AttributeError\<close>.
\<close>

fun py_get :: "json \<Rightarrow> string \<Rightarrow> json \<Rightarrow> exn + json" where
  "py_get (JObj kvs) k d = Inr (case map_of kvs k of None \<Rightarrow> d | Some v \<Rightarrow> v)"
| "py_get JNull k d = Inl AttributeError"
| "py_get (JBool b) k d = Inl AttributeError"
| "py_get (JInt n) k d = Inl AttributeError"
| "py_get (JFloat f) k d = Inl AttributeError"
| "py_get (JStr s) k d = Inl AttributeError"
| "py_get (JArr xs) k d = Inl AttributeError"

text \<open>
  \<^verbatim>\<open>for payment in v\<close>: a list yields its elements, a dict its keys, a string its
  characters; a number or a boolean is not iterable (\<^verbatim>\<open>TypeError\<close>).
\<close>

fun py_iter :: "json \<Rightarrow> exn + json list" where
  "py_iter (JArr xs) = Inr xs"
| "py_iter (JObj kvs) = Inr (map (\<lambda>kv. JStr (fst kv)) kvs)"
| "py_iter (JStr s) = Inr (map (\<lambda>c. JStr [c]) s)"
| "py_iter JNull = Inl TypeError"
| "py_iter (JBool b) = Inl TypeError"
| "py_iter (JInt n) = Inl TypeError"
| "py_iter (JFloat f) = Inl TypeError"

text \<open>
  What \<^verbatim>\<open>requests.get\<close>/\<^verbatim>\<open>requests.post\<close> gives: a
  \<^verbatim>\<open>requests.RequestException\<close> (timeout, connection refused), or a response with
  its status code and its body as \<^verbatim>\<open>response.json()\<close> reads it (the body is taken
  to be JSON text).
\<close>

datatype http_result = RequestException | Response nat json

text \<open>
  The seven remote operations. A request keeps what the script puts into the URL or
  the body: the wallet address, the payment id, and for a creation the recipient,
  the amount, the memo and the user id.
\<close>

datatype endpoint = Me | Balance | Pending | Create | Approve | Status | Complete

datatype request =
    GetMe
  | GetWalletBalance json
  | GetPendingPayments
  | PostPayment string pyfloat string json
  | PostApprove json
  | GetPayment json
  | PostComplete json

fun endpoint_of :: "request \<Rightarrow> endpoint" where
  "endpoint_of GetMe = Me"
| "endpoint_of (GetWalletBalance a) = Balance"
| "endpoint_of GetPendingPayments = Pending"
| "endpoint_of (PostPayment r a m u) = Create"
| "endpoint_of (PostApprove p) = Approve"
| "endpoint_of (GetPayment p) = Status"
| "endpoint_of (PostComplete p) = Complete"

text \<open>
  Everything the script does to the outside world, in the order it does it: a request
  sent, a \<^verbatim>\<open>time.sleep(n)\<close>, a reading of the clock.
\<close>

datatype event = Request request | Sleep nat | ReadClock

type_synonym trace = "event list"

fun is_call :: "endpoint \<Rightarrow> event \<Rightarrow> bool" where
  "is_call ep (Request r) = (endpoint_of r = ep)"
| "is_call ep (Sleep n) = False"
| "is_call ep ReadClock = False"

definition calls :: "endpoint \<Rightarrow> trace \<Rightarrow> nat" where
  "calls ep tr = length (filter (is_call ep) tr)"

fun is_clock :: "event \<Rightarrow> bool" where
  "is_clock ReadClock = True"
| "is_clock (Request r) = False"
| "is_clock (Sleep n) = False"

text \<open>
  The outside world is scripted: the \<open>k\<close>-th request to an endpoint gets
  \<open>script ep k\<close>, the \<open>k\<close>-th reading of the clock gets \<open>clock k\<close> (seconds since
  the epoch). Any run of the script against a real platform is the run against the
  script of the answers it got. The two formatting functions of Python that the code
  calls, \<^verbatim>\<open>float(s)\<close> on a string and \<^verbatim>\<open>str(x)\<close> on a float, are parameters.
\<close>

record env =
  script :: "endpoint \<Rightarrow> nat \<Rightarrow> http_result"
  clock :: "nat \<Rightarrow> real"
  float_of_str :: "string \<Rightarrow> pyfloat option"
  str_of_float :: "pyfloat \<Rightarrow> string"

definition next_response :: "env \<Rightarrow> trace \<Rightarrow> endpoint \<Rightarrow> http_result" where
  "next_response e tr ep = script e ep (calls ep tr)"

definition send :: "env \<Rightarrow> request \<Rightarrow> trace \<Rightarrow> http_result \<times> trace" where
  "send e req tr = (next_response e tr (endpoint_of req), tr @ [Request req])"

section \<open>The bot\<close>

text \<open>
  \<^verbatim>\<open>__init__\<close> fixes the amounts and the deadline
  (2025-07-20 15:38:09 UTC, 1753025889 seconds after the epoch).
\<close>

definition TRANSFER_AMOUNT :: pyfloat where
  "TRANSFER_AMOUNT = round_double 1650.0"

definition TRANSACTION_FEE :: pyfloat where
  "TRANSACTION_FEE = round_double 0.01"

definition REQUIRED_BALANCE :: pyfloat where
  "REQUIRED_BALANCE = fadd TRANSFER_AMOUNT TRANSACTION_FEE"

definition TARGET_DATETIME :: real where
  "TARGET_DATETIME = 1753025889"

record bot =
  access_token :: string
  allowed_recipient :: string
  app_id :: string
  app_secret :: string
  pi_api_base_url :: string
  sandbox_mode :: bool
  wallet_address :: json
  user_uid :: json

subsection \<open>Configuration\<close>

text \<open>\<^verbatim>\<open>os.getenv(name, default)\<close> over the process environment.\<close>

definition getenv :: "(string \<rightharpoonup> string) \<Rightarrow> string \<Rightarrow> string \<Rightarrow> string" where
  "getenv environ name dflt = (case environ name of None \<Rightarrow> dflt | Some v \<Rightarrow> v)"

text \<open>\<^verbatim>\<open>str.lower()\<close>, on ASCII letters.\<close>

definition lower_char :: "char \<Rightarrow> char" where
  "lower_char c =
     (if 65 \<le> (of_char c :: nat) \<and> (of_char c :: nat) \<le> 90
      then char_of ((of_char c :: nat) + 32) else c)"

definition lower :: "string \<Rightarrow> string" where
  "lower s = map lower_char s"

definition validate_configuration :: "bot \<Rightarrow> exn + unit" where
  "validate_configuration self =
     (if access_token self = [] then Inl ValueError
      else if allowed_recipient self = [] then Inl ValueError
      else if app_id self = [] then Inl ValueError
      else if app_secret self = [] then Inl ValueError
      else if allowed_recipient self = [] \<or> length (allowed_recipient self) < 20
        then Inl ValueError
      else Inr ())"

definition init :: "(string \<rightharpoonup> string) \<Rightarrow> exn + bot" where
  "init environ =
     (let sandbox = (lower (getenv environ ''PI_SANDBOX_MODE'' ''false'') = ''true'');
          self = \<lparr> access_token = getenv environ ''PI_ACCESS_TOKEN'' ''test_access_token_here'',
                   allowed_recipient =
                     getenv environ ''ALLOWED_RECIPIENT_ADDRESS'' ''test_wallet_address_here'',
                   app_id = getenv environ ''PI_APP_ID'' ''test_app_id_here'',
                   app_secret = getenv environ ''PI_APP_SECRET'' ''test_app_secret_here'',
                   pi_api_base_url =
                     (if sandbox then ''https://api.sandbox.minepi.com''
                      else getenv environ ''PI_API_BASE_URL'' ''https://api.minepi.com''),
                   sandbox_mode = sandbox,
                   wallet_address = JNull,
                   user_uid = JNull \<rparr>
      in case validate_configuration self of
           Inl e \<Rightarrow> Inl e
         | Inr u \<Rightarrow> Inr self)"

text \<open>
  The guard of the \<^verbatim>\<open>__main__\<close> block, which runs before \<^verbatim>\<open>main()\<close> when the file
  is started as a script: the required variables that are unset or empty.
\<close>

definition required_env_vars :: "string list" where
  "required_env_vars =
     [''PI_ACCESS_TOKEN'', ''ALLOWED_RECIPIENT_ADDRESS'', ''PI_APP_ID'', ''PI_APP_SECRET'']"

definition missing_vars :: "(string \<rightharpoonup> string) \<Rightarrow> string list" where
  "missing_vars environ =
     filter (\<lambda>var. case environ var of None \<Rightarrow> True | Some v \<Rightarrow> v = []) required_env_vars"



text \<open>
  The other place that constructs the bot, \<^verbatim>\<open>handle_transfer\<close> of \<^verbatim>\<open>app.py\<close>: it
  answers 400 when the request has no access token, and otherwise sets these five
  variables before it calls the constructor.
\<close>

definition trigger_environ :: "string \<Rightarrow> (string \<rightharpoonup> string) \<Rightarrow> (string \<rightharpoonup> string)" where
  "trigger_environ token environ =
     environ(''PI_ACCESS_TOKEN'' \<mapsto> token,
             ''ALLOWED_RECIPIENT_ADDRESS'' \<mapsto> ''pi_1abc234...yourrecipient'',
             ''PI_APP_ID'' \<mapsto> ''your_app_id_here'',
             ''PI_APP_SECRET'' \<mapsto> ''your_app_secret_here'',
             ''PI_SANDBOX_MODE'' \<mapsto> ''true'')"

subsection \<open>Recipient guard\<close>

definition validate_recipient_address :: "bot \<Rightarrow> string \<Rightarrow> exn + bool" where
  "validate_recipient_address self recipient =
     (if recipient \<noteq> allowed_recipient self then Inl ValueError else Inr True)"

subsection \<open>Platform client\<close>

text \<open>
  Each operation catches \<^verbatim>\<open>requests.RequestException\<close> itself. A result of type
  \<open>exn + _\<close> is an operation that can let another exception escape; \<open>JNull\<close> is the
  \<^verbatim>\<open>None\<close> a failed operation returns.
\<close>

definition get_user_info :: "env \<Rightarrow> bot \<Rightarrow> trace \<Rightarrow> (exn + json) \<times> bot \<times> trace" where
  "get_user_info e self tr =
     (case send e GetMe tr of
        (RequestException, tr1) \<Rightarrow> (Inr JNull, self, tr1)
      | (Response code user_data, tr1) \<Rightarrow>
          if code = 200 then
            (case py_get user_data ''username'' (JStr ''N/A'') of
               Inl x \<Rightarrow> (Inl x, self, tr1)
             | Inr username \<Rightarrow>
                 (case py_get user_data ''uid'' JNull of
                    Inl x \<Rightarrow> (Inl x, self, tr1)
                  | Inr uid \<Rightarrow>
                      (case py_get user_data ''wallet_address'' JNull of
                         Inl x \<Rightarrow> (Inl x, self\<lparr>user_uid := uid\<rparr>, tr1)
                       | Inr wa \<Rightarrow>
                           (Inr user_data,
                            self\<lparr>user_uid := uid, wallet_address := wa\<rparr>, tr1))))
          else (Inr JNull, self, tr1))"

definition get_wallet_balance :: "env \<Rightarrow> bot \<Rightarrow> trace \<Rightarrow> json \<times> trace" where
  "get_wallet_balance e self tr =
     (if \<not> truthy (wallet_address self) then (JNull, tr)
      else
        (case send e (GetWalletBalance (wallet_address self)) tr of
           (RequestException, tr1) \<Rightarrow> (JNull, tr1)
         | (Response code balance_data, tr1) \<Rightarrow>
             if code = 200 then (balance_data, tr1) else (JNull, tr1)))"

text \<open>
  Python's \<^verbatim>\<open>float(v)\<close> on a JSON value: a float is returned as it is, an
  \<^verbatim>\<open>int\<close> is rounded to the nearest float and raises \<^verbatim>\<open>OverflowError\<close> when it
  is too large for one, a string is parsed.
\<close>

fun py_float :: "env \<Rightarrow> json \<Rightarrow> exn + pyfloat" where
  "py_float e (JFloat f) = Inr f"
| "py_float e (JInt n) =
     (case round_double (of_int n) of
        Fin x \<Rightarrow> Inr (Fin x)
      | PInf \<Rightarrow> Inl OverflowError
      | NInf \<Rightarrow> Inl OverflowError
      | NaN \<Rightarrow> Inl OverflowError)"
| "py_float e (JBool b) = Inr (Fin (if b then 1 else 0))"
| "py_float e (JStr s) = (case float_of_str e s of None \<Rightarrow> Inl ValueError | Some x \<Rightarrow> Inr x)"
| "py_float e JNull = Inl TypeError"
| "py_float e (JArr xs) = Inl TypeError"
| "py_float e (JObj kvs) = Inl TypeError"

definition get_available_balance :: "env \<Rightarrow> bot \<Rightarrow> trace \<Rightarrow> (exn + pyfloat) \<times> trace" where
  "get_available_balance e self tr =
     (case get_wallet_balance e self tr of
        (balance_data, tr1) \<Rightarrow>
          if truthy balance_data then
            (case py_get balance_data ''available'' (JInt 0) of
               Inl x \<Rightarrow> (Inl x, tr1)
             | Inr available \<Rightarrow> (py_float e available, tr1))
          else (Inr (Fin 0), tr1))"

definition get_pending_payments :: "env \<Rightarrow> bot \<Rightarrow> trace \<Rightarrow> (exn + json) \<times> trace" where
  "get_pending_payments e self tr =
     (case send e GetPendingPayments tr of
        (RequestException, tr1) \<Rightarrow> (Inr JNull, tr1)
      | (Response code payments_data, tr1) \<Rightarrow>
          if code = 200 then (py_get payments_data ''payments'' (JArr []), tr1)
          else (Inr JNull, tr1))"

definition complete_payment_internal :: "env \<Rightarrow> json \<Rightarrow> trace \<Rightarrow> bool \<times> trace" where
  "complete_payment_internal e payment_id tr =
     (case send e (PostComplete payment_id) tr of
        (RequestException, tr1) \<Rightarrow> (False, tr1)
      | (Response code body, tr1) \<Rightarrow> (code = 200, tr1))"

definition create_payment ::
  "env \<Rightarrow> bot \<Rightarrow> string \<Rightarrow> pyfloat \<Rightarrow> string \<Rightarrow> trace \<Rightarrow> json \<times> trace" where
  "create_payment e self recipient amount memo tr =
     (case validate_recipient_address self recipient of
        Inl x \<Rightarrow> (JNull, tr)
      | Inr ok \<Rightarrow>
          (case send e (PostPayment recipient amount memo (user_uid self)) tr of
             (RequestException, tr1) \<Rightarrow> (JNull, tr1)
           | (Response code payment_response, tr1) \<Rightarrow>
               if code = 200 \<or> code = 201 then
                 (case py_get payment_response ''identifier'' JNull of
                    Inl x \<Rightarrow> (JNull, tr1)
                  | Inr payment_id \<Rightarrow> (payment_id, tr1))
               else (JNull, tr1)))"

definition approve_payment :: "env \<Rightarrow> json \<Rightarrow> trace \<Rightarrow> bool \<times> trace" where
  "approve_payment e payment_id tr =
     (case send e (PostApprove payment_id) tr of
        (RequestException, tr1) \<Rightarrow> (False, tr1)
      | (Response code body, tr1) \<Rightarrow> (code = 200, tr1))"

definition complete_payment :: "env \<Rightarrow> json \<Rightarrow> json \<Rightarrow> trace \<Rightarrow> bool \<times> trace" where
  "complete_payment e payment_id txid tr = complete_payment_internal e payment_id tr"

definition get_payment_status :: "env \<Rightarrow> json \<Rightarrow> trace \<Rightarrow> json \<times> trace" where
  "get_payment_status e payment_id tr =
     (case send e (GetPayment payment_id) tr of
        (RequestException, tr1) \<Rightarrow> (JNull, tr1)
      | (Response code body, tr1) \<Rightarrow>
          if code = 200 then (body, tr1) else (JNull, tr1))"

subsection \<open>Unlock confirmation\<close>

text \<open>
  The \<^verbatim>\<open>for\<close> loop of \<^verbatim>\<open>confirm_unlock\<close>. Any exception inside it is caught
  by the \<^verbatim>\<open>except Exception\<close> of \<^verbatim>\<open>confirm_unlock\<close>, which returns
  \<^verbatim>\<open>False\<close> and leaves the rest of the list unvisited.
\<close>

fun confirm_payments :: "env \<Rightarrow> json list \<Rightarrow> trace \<Rightarrow> bool \<times> trace" where
  "confirm_payments e [] tr = (True, tr)"
| "confirm_payments e (payment # rest) tr =
     (case py_get payment ''status'' (JObj []) of
        Inl x \<Rightarrow> (False, tr)
      | Inr status \<Rightarrow>
          (case py_get status ''developer_completed'' (JBool True) of
             Inl x \<Rightarrow> (False, tr)
           | Inr completed \<Rightarrow>
               if \<not> truthy completed then
                 (case py_get payment ''identifier'' JNull of
                    Inl x \<Rightarrow> (False, tr)
                  | Inr payment_id \<Rightarrow>
                      (case complete_payment_internal e payment_id tr of
                         (ok, tr1) \<Rightarrow> confirm_payments e rest tr1))
               else confirm_payments e rest tr))"

definition confirm_unlock :: "env \<Rightarrow> bot \<Rightarrow> trace \<Rightarrow> bool \<times> trace" where
  "confirm_unlock e self tr =
     (case get_pending_payments e self tr of
        (Inl x, tr1) \<Rightarrow> (False, tr1)
      | (Inr pending_payments, tr1) \<Rightarrow>
          if \<not> truthy pending_payments then (True, tr1)
          else
            (case py_iter pending_payments of
               Inl x \<Rightarrow> (False, tr1)
             | Inr payments \<Rightarrow> confirm_payments e payments tr1))"

subsection \<open>Payment workflow\<close>

definition max_attempts :: nat where
  "max_attempts = 60"

text \<open>
  The test \<^verbatim>\<open>status.get('cancelled') or status.get('user_cancelled')\<close> of the polling
  loop. \<open>Some b\<close> is \<^verbatim>\<open>return b\<close> (an exception is caught by \<^verbatim>\<open>execute_transfer\<close>
  and returns \<^verbatim>\<open>False\<close>); \<open>None\<close> falls through to \<^verbatim>\<open>attempt += 1\<close>.
\<close>

definition cancelled_check :: "json \<Rightarrow> trace \<Rightarrow> bool option \<times> trace" where
  "cancelled_check status tr =
     (case py_get status ''cancelled'' JNull of
        Inl x \<Rightarrow> (Some False, tr)
      | Inr cancelled \<Rightarrow>
          if truthy cancelled then (Some False, tr)
          else
            (case py_get status ''user_cancelled'' JNull of
               Inl x \<Rightarrow> (Some False, tr)
             | Inr user_cancelled \<Rightarrow>
                 if truthy user_cancelled then (Some False, tr) else (None, tr)))"

text \<open>One pass through the body of the \<^verbatim>\<open>while\<close> loop, up to \<^verbatim>\<open>attempt += 1\<close>.\<close>

definition poll_once :: "env \<Rightarrow> json \<Rightarrow> trace \<Rightarrow> bool option \<times> trace" where
  "poll_once e payment_id tr =
     (case get_payment_status e payment_id tr of
        (payment_status, tr1) \<Rightarrow>
          if truthy payment_status then
            (case py_get payment_status ''status'' (JObj []) of
               Inl x \<Rightarrow> (Some False, tr1)
             | Inr status \<Rightarrow>
                 (case py_get status ''transaction_verified'' JNull of
                    Inl x \<Rightarrow> (Some False, tr1)
                  | Inr verified \<Rightarrow>
                      if truthy verified then
                        (case py_get status ''developer_completed'' JNull of
                           Inl x \<Rightarrow> (Some False, tr1)
                         | Inr completed \<Rightarrow>
                             if \<not> truthy completed then
                               (case py_get payment_status ''transaction'' (JObj []) of
                                  Inl x \<Rightarrow> (Some False, tr1)
                                | Inr transaction \<Rightarrow>
                                    (case py_get transaction ''txid'' JNull of
                                       Inl x \<Rightarrow> (Some False, tr1)
                                     | Inr txid \<Rightarrow>
                                         (case complete_payment e payment_id txid tr1 of
                                            (ok, tr2) \<Rightarrow>
                                              if ok then (Some True, tr2)
                                              else cancelled_check status tr2)))
                             else cancelled_check status tr1)
                      else cancelled_check status tr1))
          else (None, tr1))"

function poll_loop :: "env \<Rightarrow> json \<Rightarrow> nat \<Rightarrow> trace \<Rightarrow> bool \<times> trace" where
  "poll_loop e payment_id attempt tr =
     (if attempt < max_attempts then
        (case poll_once e payment_id tr of
           (Some result, tr1) \<Rightarrow> (result, tr1)
         | (None, tr1) \<Rightarrow> poll_loop e payment_id (attempt + 1) (tr1 @ [Sleep 10]))
      else (False, tr))"
  by pat_completeness auto
termination
  by (relation "measure (\<lambda>(e, p, attempt, tr). max_attempts - attempt)") auto

definition transfer_memo :: "env \<Rightarrow> pyfloat \<Rightarrow> string" where
  "transfer_memo e amount =
     ''Automated transfer of '' @ str_of_float e amount
       @ '' Pi - Scheduled for 2025-07-20 15:38:09+00:00''"

definition execute_transfer :: "env \<Rightarrow> bot \<Rightarrow> string \<Rightarrow> pyfloat \<Rightarrow> trace \<Rightarrow> bool \<times> trace" where
  "execute_transfer e self recipient amount tr =
     (case create_payment e self recipient amount (transfer_memo e amount) tr of
        (payment_id, tr1) \<Rightarrow>
          if \<not> truthy payment_id then (False, tr1)
          else
            (case approve_payment e payment_id tr1 of
               (approved, tr2) \<Rightarrow>
                 if \<not> approved then (False, tr2)
                 else poll_loop e payment_id 0 tr2))"

subsection \<open>Balance gate and one cycle\<close>

text \<open>
  \<^verbatim>\<open>check_and_transfer\<close> from the unlock confirmation on (the part after the
  authentication check), named because both ways into it share it.
\<close>

definition unlock_and_transfer :: "env \<Rightarrow> bot \<Rightarrow> trace \<Rightarrow> bool \<times> bot \<times> trace" where
  "unlock_and_transfer e self tr =
     (case confirm_unlock e self tr of
        (unlocked, tr1) \<Rightarrow>
          (case get_available_balance e self tr1 of
             (Inl x, tr2) \<Rightarrow> (False, self, tr2)
           | (Inr available_balance, tr2) \<Rightarrow>
               if fge available_balance REQUIRED_BALANCE then
                 (case execute_transfer e self (allowed_recipient self) TRANSFER_AMOUNT tr2 of
                    (success, tr3) \<Rightarrow> (success, self, tr3))
               else (False, self, tr2)))"

definition check_and_transfer :: "env \<Rightarrow> bot \<Rightarrow> trace \<Rightarrow> bool \<times> bot \<times> trace" where
  "check_and_transfer e self tr =
     (if \<not> truthy (wallet_address self) then
        (case get_user_info e self tr of
           (Inl x, self1, tr1) \<Rightarrow> (False, self1, tr1)
         | (Inr user_info, self1, tr1) \<Rightarrow>
             if \<not> truthy user_info then (False, self1, tr1)
             else unlock_and_transfer e self1 tr1)
      else unlock_and_transfer e self tr)"

subsection \<open>Scheduler loop\<close>

definition clock_reads :: "trace \<Rightarrow> nat" where
  "clock_reads tr = length (filter is_clock tr)"

text \<open>\<^verbatim>\<open>datetime.now(timezone.utc)\<close>: the next reading of the scripted clock.\<close>

definition now :: "env \<Rightarrow> trace \<Rightarrow> real \<times> trace" where
  "now e tr = (clock e (clock_reads tr), tr @ [ReadClock])"

definition is_target_time_reached :: "env \<Rightarrow> trace \<Rightarrow> bool \<times> trace" where
  "is_target_time_reached e tr =
     (case now e tr of (current_time, tr1) \<Rightarrow> (current_time \<ge> TARGET_DATETIME, tr1))"

text \<open>
  The \<^verbatim>\<open>while True\<close> of \<^verbatim>\<open>run_monitoring_loop\<close>. It may run forever, so it is a
  partial function: \<open>None\<close> is the loop that never leaves. \<^verbatim>\<open>check_and_transfer\<close>
  catches every \<^verbatim>\<open>Exception\<close> itself, so the loop's own handler is never
  entered; a \<^verbatim>\<open>KeyboardInterrupt\<close> from outside is not modelled. Times are
  seconds as exact numbers: a \<^verbatim>\<open>datetime\<close> counts whole microseconds, and on
  those the rounding of \<^verbatim>\<open>total_seconds()\<close> does not change the comparison with
  300.
\<close>

partial_function (option) monitoring_loop :: "env \<Rightarrow> bot \<Rightarrow> trace \<Rightarrow> (bot \<times> trace) option" where
  "monitoring_loop e self tr =
     (case now e tr of
        (current_time, tr1) \<Rightarrow>
          (case is_target_time_reached e tr1 of
             (reached, tr2) \<Rightarrow>
               if reached then
                 (case check_and_transfer e self tr2 of
                    (ok, self1, tr3) \<Rightarrow> if ok then Some (self1, tr3) else Some (self1, tr3))
               else
                 (case check_and_transfer e self tr2 of
                    (ok, self1, tr3) \<Rightarrow>
                      if ok then Some (self1, tr3)
                      else if TARGET_DATETIME - current_time > 300
                        then monitoring_loop e self1 (tr3 @ [Sleep 300])
                      else monitoring_loop e self1 (tr3 @ [Sleep 60]))))"

definition run_monitoring_loop ::
  "env \<Rightarrow> bot \<Rightarrow> trace \<Rightarrow> ((exn + unit) \<times> bot \<times> trace) option" where
  "run_monitoring_loop e self tr =
     (case get_user_info e self tr of
        (Inl x, self1, tr1) \<Rightarrow> Some (Inl x, self1, tr1)
      | (Inr user_info, self1, tr1) \<Rightarrow>
          if \<not> truthy user_info then Some (Inr (), self1, tr1)
          else
            (case monitoring_loop e self1 tr1 of
               None \<Rightarrow> None
             | Some (self2, tr2) \<Rightarrow> Some (Inr (), self2, tr2)))"

section \<open>The vocabulary of the properties\<close>

subsection \<open>Status polls\<close>

text \<open>
  What \<^verbatim>\<open>get_payment_status\<close> hands to the polling loop for a given answer of the
  platform: the body of a 200 response, \<^verbatim>\<open>None\<close> otherwise.
\<close>

definition payment_status_of :: "http_result \<Rightarrow> json" where
  "payment_status_of r =
     (case r of RequestException \<Rightarrow> JNull
      | Response code body \<Rightarrow> if code = 200 then body else JNull)"

text \<open>
  The status sequence of a workflow that starts at trace \<open>tr\<close>: its \<open>i\<close>-th poll
  (counted from 0) reads \<open>nth_status e tr i\<close>.
\<close>

definition nth_status :: "env \<Rightarrow> trace \<Rightarrow> nat \<Rightarrow> json" where
  "nth_status e tr i = payment_status_of (script e Status (calls Status tr + i))"

fun is_dict :: "json \<Rightarrow> bool" where
  "is_dict (JObj kvs) = True"
| "is_dict JNull = False"
| "is_dict (JBool b) = False"
| "is_dict (JInt n) = False"
| "is_dict (JFloat f) = False"
| "is_dict (JStr s) = False"
| "is_dict (JArr xs) = False"

text \<open>A flag of the nested status record is set when it is present and truthy.\<close>

definition status_flag :: "json \<Rightarrow> string \<Rightarrow> bool" where
  "status_flag payment_status k =
     (case py_get payment_status ''status'' (JObj []) of
        Inl x \<Rightarrow> False
      | Inr status \<Rightarrow> (case py_get status k JNull of Inl x \<Rightarrow> False | Inr v \<Rightarrow> truthy v))"

definition reports_verified_uncompleted :: "json \<Rightarrow> bool" where
  "reports_verified_uncompleted payment_status =
     (truthy payment_status \<and> status_flag payment_status ''transaction_verified''
      \<and> \<not> status_flag payment_status ''developer_completed'')"

definition reports_cancelled :: "json \<Rightarrow> bool" where
  "reports_cancelled payment_status =
     (truthy payment_status
      \<and> (status_flag payment_status ''cancelled'' \<or> status_flag payment_status ''user_cancelled''))"

text \<open>
  A poll result that follows the platform's contract: a failed poll (\<^verbatim>\<open>None\<close>, or any
  falsy body), or an object whose \<^verbatim>\<open>status\<close>, when present, is an object. On any
  other body \<^verbatim>\<open>.get\<close> raises and \<^verbatim>\<open>execute_transfer\<close> returns \<^verbatim>\<open>False\<close> at once.
\<close>

definition well_formed_status :: "json \<Rightarrow> bool" where
  "well_formed_status payment_status =
     (if truthy payment_status then
        (case py_get payment_status ''status'' (JObj []) of
           Inl x \<Rightarrow> False
         | Inr status \<Rightarrow> is_dict status)
      else True)"

text \<open>The \<^verbatim>\<open>transaction\<close> field, which the loop reads before it completes, is absent or an object.\<close>

definition has_transaction_record :: "json \<Rightarrow> bool" where
  "has_transaction_record payment_status =
     (case py_get payment_status ''transaction'' (JObj []) of
        Inl x \<Rightarrow> False
      | Inr transaction \<Rightarrow> is_dict transaction)"

text \<open>A completion call that does not succeed: no response, or a status other than 200.\<close>

definition completion_fails :: "http_result \<Rightarrow> bool" where
  "completion_fails r =
     (case r of RequestException \<Rightarrow> True | Response code body \<Rightarrow> code \<noteq> 200)"

subsection \<open>Traces\<close>

text \<open>\<open>tr'\<close> is \<open>tr\<close> followed by events that all satisfy \<open>P\<close>.\<close>

definition extends :: "(event \<Rightarrow> bool) \<Rightarrow> trace \<Rightarrow> trace \<Rightarrow> bool" where
  "extends P tr tr' = (\<exists>added. tr' = tr @ added \<and> list_all P added)"

text \<open>The events of the polling loop for payment \<open>pid\<close>.\<close>

fun polling_event :: "json \<Rightarrow> event \<Rightarrow> bool" where
  "polling_event pid (Request r) = (r = GetPayment pid \<or> r = PostComplete pid)"
| "polling_event pid (Sleep n) = (n = 10)"
| "polling_event pid ReadClock = False"

subsection \<open>Failures of the platform client\<close>

text \<open>
  The two ways a call can fail: no response at all, or a response whose status code is
  not among those the operation takes for success.
\<close>

definition network_error :: "http_result \<Rightarrow> bool" where
  "network_error r = (case r of RequestException \<Rightarrow> True | Response code body \<Rightarrow> False)"

definition application_rejection :: "nat list \<Rightarrow> http_result \<Rightarrow> bool" where
  "application_rejection ok r =
     (case r of RequestException \<Rightarrow> False | Response code body \<Rightarrow> code \<notin> set ok)"

subsection \<open>Pending payments\<close>

text \<open>
  A pending payment whose status record says, in so many words, that the developer
  has not completed it: the \<^verbatim>\<open>developer_completed\<close> entry is there and is falsy.
\<close>

definition explicitly_uncompleted :: "json \<Rightarrow> bool" where
  "explicitly_uncompleted payment =
     (case payment of
        JObj kvs \<Rightarrow>
          (case map_of kvs ''status'' of
             Some (JObj st) \<Rightarrow>
               (case map_of st ''developer_completed'' of
                  Some v \<Rightarrow> \<not> truthy v
                | None \<Rightarrow> False)
           | _ \<Rightarrow> False)
      | _ \<Rightarrow> False)"

text \<open>An entry the sweep can read: an object whose status, when present, is an object.\<close>

definition payment_record :: "json \<Rightarrow> bool" where
  "payment_record payment =
     (case payment of
        JObj kvs \<Rightarrow> (case map_of kvs ''status'' of None \<Rightarrow> True | Some st \<Rightarrow> is_dict st)
      | _ \<Rightarrow> False)"

text \<open>The completion request for a payment, by its \<^verbatim>\<open>identifier\<close>.\<close>

definition completion_request :: "json \<Rightarrow> event" where
  "completion_request payment =
     Request (PostComplete (case py_get payment ''identifier'' JNull of
                              Inl x \<Rightarrow> JNull | Inr payment_id \<Rightarrow> payment_id))"

text \<open>
  The entries the sweep iterates over, given the trace it starts at: the \<^verbatim>\<open>payments\<close>
  of a 200 answer to the listing (none when the listing fails).
\<close>

definition reported_payments :: "env \<Rightarrow> trace \<Rightarrow> json list" where
  "reported_payments e tr =
     (case next_response e tr Pending of
        RequestException \<Rightarrow> []
      | Response code payments_data \<Rightarrow>
          if code = 200 then
            (case py_get payments_data ''payments'' (JArr []) of
               Inl x \<Rightarrow> []
             | Inr pending \<Rightarrow> (case py_iter pending of Inl x \<Rightarrow> [] | Inr payments \<Rightarrow> payments))
          else [])"

subsection \<open>One cycle and the scheduler\<close>

text \<open>
  What one \<^verbatim>\<open>check_and_transfer\<close> can add to the trace: requests, and the 10-unit
  sleeps between status polls. The scheduler loop itself sleeps 300 or 60 units.
\<close>

fun cycle_event :: "event \<Rightarrow> bool" where
  "cycle_event (Request r) = True"
| "cycle_event (Sleep n) = (n = 10)"
| "cycle_event ReadClock = False"

fun is_scheduler_sleep :: "event \<Rightarrow> bool" where
  "is_scheduler_sleep (Sleep n) = (n = 300 \<or> n = 60)"
| "is_scheduler_sleep (Request r) = False"
| "is_scheduler_sleep ReadClock = False"

definition scheduler_sleeps :: "trace \<Rightarrow> nat" where
  "scheduler_sleeps tr = length (filter is_scheduler_sleep tr)"

section \<open>Sample configurations\<close>

text \<open>A configured bot, before and after authentication, and a platform that is down.\<close>

definition sample_bot :: bot where
  "sample_bot =
     \<lparr> access_token = ''token'',
       allowed_recipient = ''GALLOWEDRECIPIENTADDRESS0001'',
       app_id = ''app'',
       app_secret = ''secret'',
       pi_api_base_url = ''https://api.minepi.com'',
       sandbox_mode = False,
       wallet_address = JNull,
       user_uid = JNull \<rparr>"

definition signed_in_bot :: bot where
  "signed_in_bot = sample_bot\<lparr>wallet_address := JStr ''GWALLET'', user_uid := JStr ''user-1''\<rparr>"

definition offline_env :: env where
  "offline_env =
     \<lparr> script = (\<lambda>ep k. RequestException),
       clock = (\<lambda>k. 0),
       float_of_str = (\<lambda>s. None),
       str_of_float = (\<lambda>x. ''1650.0'') \<rparr>"

text \<open>Three payment objects, as \<^verbatim>\<open>GET /v2/payments/{id}\<close> reports them.\<close>

definition pending_status :: json where
  "pending_status =
     JObj [(''identifier'', JStr ''pay-1''),
           (''status'', JObj [(''transaction_verified'', JBool False),
                              (''developer_completed'', JBool False),
                              (''cancelled'', JBool False),
                              (''user_cancelled'', JBool False)])]"

definition verified_status :: json where
  "verified_status =
     JObj [(''identifier'', JStr ''pay-1''),
           (''status'', JObj [(''transaction_verified'', JBool True),
                              (''developer_completed'', JBool False),
                              (''cancelled'', JBool False),
                              (''user_cancelled'', JBool False)]),
           (''transaction'', JObj [(''txid'', JStr ''tx-1'')])]"

definition cancelled_status :: json where
  "cancelled_status =
     JObj [(''identifier'', JStr ''pay-1''),
           (''status'', JObj [(''transaction_verified'', JBool False),
                              (''developer_completed'', JBool False),
                              (''cancelled'', JBool True),
                              (''user_cancelled'', JBool False)])]"

text \<open>
  A platform that creates and approves payment \<open>pay-1\<close> and then answers the status
  polls and the completion calls from the two given scripts.
\<close>

definition workflow_env :: "(nat \<Rightarrow> http_result) \<Rightarrow> (nat \<Rightarrow> http_result) \<Rightarrow> env" where
  "workflow_env statuses completions =
     \<lparr> script = (\<lambda>ep k. case ep of
                   Create \<Rightarrow> Response 201 (JObj [(''identifier'', JStr ''pay-1'')])
                 | Approve \<Rightarrow> Response 200 (JObj [])
                 | Status \<Rightarrow> statuses k
                 | Complete \<Rightarrow> completions k
                 | Me \<Rightarrow> RequestException
                 | Balance \<Rightarrow> RequestException
                 | Pending \<Rightarrow> RequestException),
       clock = (\<lambda>k. 0),
       float_of_str = (\<lambda>s. None),
       str_of_float = (\<lambda>x. ''1650.0'') \<rparr>"

text \<open>Verified at every poll; the first completion call fails, the later ones succeed.\<close>

definition retry_env :: env where
  "retry_env = workflow_env (\<lambda>k. Response 200 verified_status)
                 (\<lambda>k. if k = 0 then Response 500 JNull else Response 200 (JObj []))"

definition pending_env :: env where
  "pending_env = workflow_env (\<lambda>k. Response 200 pending_status) (\<lambda>k. RequestException)"

text \<open>Pending at the first two polls, cancelled from the third on.\<close>

definition cancelled_env :: env where
  "cancelled_env = workflow_env
     (\<lambda>k. if k < 2 then Response 200 pending_status else Response 200 cancelled_status)
     (\<lambda>k. RequestException)"

definition rejecting_env :: env where
  "rejecting_env =
     \<lparr> script = (\<lambda>ep k. Response 500 (JObj [(''error'', JStr ''internal'')])),
       clock = (\<lambda>k. 0),
       float_of_str = (\<lambda>s. None),
       str_of_float = (\<lambda>x. ''1650.0'') \<rparr>"

definition unlock_env :: env where
  "unlock_env =
     \<lparr> script = (\<lambda>ep k. case ep of
          Pending \<Rightarrow> Response 200 (JObj [(''payments'', JArr
            [JObj [(''identifier'', JStr ''pay-1'')],
             JObj [(''identifier'', JStr ''pay-2''), (''status'', JObj [])],
             JObj [(''identifier'', JStr ''pay-3''),
                   (''status'', JObj [(''developer_completed'', JBool False)])],
             JObj [(''identifier'', JStr ''pay-4''),
                   (''status'', JObj [(''developer_completed'', JBool True)])]])])
        | Complete \<Rightarrow> Response 200 (JObj [])
        | _ \<Rightarrow> RequestException),
       clock = (\<lambda>k. 0),
       float_of_str = (\<lambda>s. None),
       str_of_float = (\<lambda>x. ''1650.0'') \<rparr>"


text \<open>The platform is down and the deadline has passed.\<close>

definition late_env :: env where
  "late_env = offline_env\<lparr>clock := (\<lambda>k. 1753025890)\<rparr>"

text \<open>A payment that the platform reports verified and cancelled at once.\<close>

definition verified_cancelled_status :: json where
  "verified_cancelled_status =
     JObj [(''identifier'', JStr ''pay-1''),
           (''status'', JObj [(''transaction_verified'', JBool True),
                              (''developer_completed'', JBool False),
                              (''cancelled'', JBool True),
                              (''user_cancelled'', JBool False)]),
           (''transaction'', JObj [(''txid'', JStr ''tx-1'')])]"

definition verified_cancelled_env :: env where
  "verified_cancelled_env =
     workflow_env (\<lambda>k. Response 200 verified_cancelled_status) (\<lambda>k. Response 200 (JObj []))"

text \<open>A status that is a string where the contract has an object.\<close>

definition malformed_env :: env where
  "malformed_env =
     workflow_env (\<lambda>k. Response 200 (JObj [(''status'', JStr ''pending'')]))
       (\<lambda>k. RequestException)"

section \<open>Lemmas about the operations\<close>

subsection \<open>Floats\<close>

lemma binade_eq:
  assumes "2 powr of_int k \<le> \<bar>x\<bar>" "\<bar>x\<bar> < 2 powr of_int (k + 1)" "- 1022 \<le> k"
  shows "binade x = k"
proof -
  have "0 < \<bar>x\<bar>" using assms(1) by (smt (verit) powr_gt_zero)
  then have "\<lfloor>log 2 \<bar>x\<bar>\<rfloor> = k"
    using assms(1,2) by (simp add: floor_log_eq_powr_iff)
  then show ?thesis using assms(3) by (simp add: binade_def)
qed

lemma round_half_even_eq:
  assumes "of_int n \<le> q" "q < of_int n + 1 / 2"
  shows "round_half_even q = n"
proof -
  have "\<lfloor>q\<rfloor> = n" using assms by linarith
  then show ?thesis using assms by (simp add: round_half_even_def)
qed

lemma round_half_even_up:
  assumes "of_int n - 1 / 2 < q" "q \<le> of_int n"
  shows "round_half_even q = n"
proof (cases "q = of_int n")
  case True
  then show ?thesis by (simp add: round_half_even_def)
next
  case False
  then have "\<lfloor>q\<rfloor> = n - 1" using assms by linarith
  then show ?thesis using assms False by (simp add: round_half_even_def)
qed

text \<open>A positive number in the binade of \<open>2 ^ k\<close>, \<open>k\<close> from 0 on.\<close>

lemma round_double_pos:
  assumes b: "2 ^ k \<le> x" "x < 2 ^ (k + 1)"
    and n: "(of_int n - 1 / 2) * 2 ^ k < x * 2 ^ 52" "x * 2 ^ 52 < (of_int n + 1 / 2) * 2 ^ k"
    and s: "of_int n * 2 ^ k < double_limit * 2 ^ 52"
  shows "round_double x = Fin (of_int n * 2 ^ k / 2 ^ 52)"
proof -
  have p: "0 < x" using b(1) by (smt (verit) zero_less_power)
  have pk: "2 powr real k = (2::real) ^ k" by (simp add: powr_realpow)
  have pk1: "2 powr (real k + 1) = (2::real) ^ Suc k"
    using powr_realpow [of 2 "Suc k"] by (simp add: add.commute)
  have b1: "2 powr of_int (int k) \<le> \<bar>x\<bar>" using b(1) p by (simp add: pk)
  have b2: "\<bar>x\<bar> < 2 powr of_int (int k + 1)" using b(2) p by (simp add: pk1)
  have k: "binade x = int k" using b1 b2 by (rule binade_eq) simp
  have u: "ulp_of x = 2 ^ k / 2 ^ 52"
    by (simp add: ulp_of_def k powr_diff pk)
  have q: "\<bar>x\<bar> / ulp_of x = x * 2 ^ 52 / 2 ^ k" using p by (simp add: u)
  have r: "round_half_even (x * 2 ^ 52 / 2 ^ k) = n"
  proof (cases "of_int n \<le> x * 2 ^ 52 / 2 ^ k")
    case True
    then show ?thesis using n(2) by (intro round_half_even_eq) (simp_all add: field_simps)
  next
    case False
    then show ?thesis using n(1) by (intro round_half_even_up) (simp_all add: field_simps)
  qed
  have "round_magnitude x = of_int (round_half_even (\<bar>x\<bar> / ulp_of x)) * ulp_of x"
    by (simp only: round_magnitude_def)
  also have "\<dots> = of_int (round_half_even (x * 2 ^ 52 / 2 ^ k)) * ulp_of x"
    by (simp only: q)
  also have "\<dots> = of_int n * (2 ^ k / 2 ^ 52)"
    by (simp only: r u)
  finally have m: "round_magnitude x = of_int n * 2 ^ k / 2 ^ 52" by simp
  have "\<not> double_limit \<le> round_magnitude x" using s by (simp add: m field_simps)
  then show ?thesis using p by (simp add: round_double_def m)
qed

lemma round_double_1650: "round_double 1650.0 = Fin 1650"
  using round_double_pos [of 10 1650 "1650 * 2 ^ 42"] by (simp add: double_limit_def)


lemma round_double_just_below:
  "round_double 1650.0099999999999 = Fin (7256820723786711 / 2 ^ 42)"
  using round_double_pos [of 10 "1650.0099999999999" 7256820723786711]
  by (simp add: double_limit_def)

lemma round_double_sum:
  "round_double (1650 + 5764607523034235 / 2 ^ 59) = Fin (7256820723786711 / 2 ^ 42)"
  using round_double_pos [of 10 "1650 + 5764607523034235 / 2 ^ 59" 7256820723786711]
  by (simp add: double_limit_def)

text \<open>A positive number in the binade of \<open>2 ^ - k\<close>, \<open>k\<close> up to 1022.\<close>

lemma round_double_small:
  assumes b: "1 \<le> x * 2 ^ k" "x * 2 ^ k < 2" and k: "k \<le> 1022"
    and n: "of_int n - 1 / 2 < x * 2 ^ (k + 52)" "x * 2 ^ (k + 52) < of_int n + 1 / 2"
    and s: "of_int n < double_limit * 2 ^ (k + 52)"
  shows "round_double x = Fin (of_int n / 2 ^ (k + 52))"
proof -
  have p: "0 < x" using b(1) by (smt (verit) mult_nonpos_nonneg zero_le_power)
  have pk: "2 powr (- real k) = 1 / (2::real) ^ k" by (simp add: powr_minus powr_realpow divide_simps)
  have pk1: "2 powr (1 - real k) = 2 / (2::real) ^ k"
    by (simp add: powr_diff powr_realpow)
  have b1: "2 powr of_int (- int k) \<le> \<bar>x\<bar>" using b(1) p by (simp add: pk field_simps)
  have b2: "\<bar>x\<bar> < 2 powr of_int (- int k + 1)" using b(2) p by (simp add: pk1 field_simps)
  have bk: "binade x = - int k" using b1 b2 by (rule binade_eq) (use k in simp)
  have u: "ulp_of x = 1 / 2 ^ (k + 52)"
    by (simp add: ulp_of_def bk powr_diff powr_minus powr_realpow power_add divide_simps)
  have q: "\<bar>x\<bar> / ulp_of x = x * 2 ^ (k + 52)" using p by (simp add: u)
  have r: "round_half_even (x * 2 ^ (k + 52)) = n"
  proof (cases "of_int n \<le> x * 2 ^ (k + 52)")
    case True
    then show ?thesis using n(2) by (intro round_half_even_eq) simp_all
  next
    case False
    then show ?thesis using n(1) by (intro round_half_even_up) simp_all
  qed
  have "round_magnitude x = of_int (round_half_even (\<bar>x\<bar> / ulp_of x)) * ulp_of x"
    by (simp only: round_magnitude_def)
  also have "\<dots> = of_int (round_half_even (x * 2 ^ (k + 52))) * ulp_of x"
    by (simp only: q)
  also have "\<dots> = of_int n * (1 / 2 ^ (k + 52))"
    by (simp only: r u)
  finally have m: "round_magnitude x = of_int n / 2 ^ (k + 52)" by simp
  have "\<not> double_limit \<le> round_magnitude x" using s by (simp add: m field_simps)
  then show ?thesis using p by (simp add: round_double_def m)
qed

lemma round_double_fee: "round_double 0.01 = Fin (5764607523034235 / 2 ^ 59)"
  using round_double_small [of "0.01" 7 5764607523034235] by (simp add: double_limit_def)

text \<open>From \<open>2 ^ 1024\<close> on, the rounding overflows.\<close>

lemma round_double_overflow:
  assumes "double_limit \<le> x"
  shows "round_double x = PInf"
proof -
  have p: "0 < x" using assms by (simp add: double_limit_def)
  define k where "k = \<lfloor>log 2 x\<rfloor>"
  have "of_int k \<le> log 2 x" by (simp add: k_def)
  then have l: "2 powr of_int k \<le> x" using p by (simp add: le_log_iff)
  have "2 powr 1024 \<le> x" using assms by (simp add: double_limit_def)
  then have "1024 \<le> log 2 x" using p le_log_iff [of 2 x 1024] by simp
  then have k1: "1024 \<le> k" unfolding k_def by linarith
  then have bk: "binade x = k" using p by (simp add: binade_def k_def)
  define u :: real where "u = 2 powr of_int (k - 52)"
  have u0: "0 < u" by (simp add: u_def)
  have uu: "ulp_of x = u" by (simp add: ulp_of_def bk u_def)
  have e: "2 powr of_int k = 2 ^ 52 * u"
    by (simp add: u_def powr_diff)
  have "2 ^ 52 \<le> x / u" using l u0 by (simp add: e field_simps)
  then have "(2::int) ^ 52 \<le> \<lfloor>x / u\<rfloor>" by (simp add: le_floor_iff)
  moreover have "\<lfloor>x / u\<rfloor> \<le> round_half_even (x / u)" by (simp add: round_half_even_def)
  ultimately have "(2::int) ^ 52 \<le> round_half_even (x / u)" by (rule order_trans)
  then have "(2::real) ^ 52 \<le> of_int (round_half_even (x / u))"
    by (metis of_int_le_iff of_int_numeral of_int_power)
  then have "2 ^ 52 * u \<le> of_int (round_half_even (x / u)) * u" using u0 by simp
  then have "2 powr of_int k \<le> round_magnitude x"
    using p by (simp add: round_magnitude_def uu e)
  moreover have "(2::real) powr 1024 \<le> 2 powr of_int k"
    using k1 by (intro powr_mono) simp_all
  moreover have "double_limit = 2 powr 1024" by (simp add: double_limit_def)
  ultimately have "double_limit \<le> round_magnitude x" by (simp only: order_trans)
  then show ?thesis using p by (simp add: round_double_def)
qed

text \<open>
  \<^verbatim>\<open>float\<close> of an \<^verbatim>\<open>int\<close> beyond the range of the floats raises, and the float
  nearest to the decimal \<^verbatim>\<open>1650.0099999999999\<close> is already the required balance.
\<close>

lemma py_float_huge_int: "py_float e (JInt (2 * 10 ^ 308)) = Inl OverflowError"
proof -
  have "double_limit \<le> real_of_int (2 * 10 ^ 308)" by (simp add: double_limit_def)
  then have "round_double (real_of_int (2 * 10 ^ 308)) = PInf" by (rule round_double_overflow)
  then show ?thesis by (simp only: py_float.simps pyfloat.case)
qed

text \<open>
  The required balance, as the constructor computes it: \<^verbatim>\<open>0.01\<close> is the float
  \<open>5764607523034235 / 2 ^ 59\<close>, and the rounded sum is \<open>7256820723786711 / 2 ^ 42\<close>,
  the float that the literal \<^verbatim>\<open>1650.01\<close> denotes.
\<close>

lemma TRANSFER_AMOUNT_value: "TRANSFER_AMOUNT = Fin 1650"
  by (simp only: TRANSFER_AMOUNT_def round_double_1650)

lemma TRANSACTION_FEE_value: "TRANSACTION_FEE = Fin (5764607523034235 / 2 ^ 59)"
  by (simp only: TRANSACTION_FEE_def round_double_fee)

lemma REQUIRED_BALANCE_value: "REQUIRED_BALANCE = Fin (7256820723786711 / 2 ^ 42)"
  by (simp only: REQUIRED_BALANCE_def TRANSFER_AMOUNT_value TRANSACTION_FEE_value fadd.simps
        round_double_sum)

lemma zero_is_insufficient: "\<not> fge (Fin 0) REQUIRED_BALANCE"
  by (simp add: REQUIRED_BALANCE_value)

text \<open>
  The gate compares floats: a balance written \<^verbatim>\<open>1650.0099999999999\<close> is read as the
  required balance itself and passes, and the next float below does not.
\<close>

lemma literal_just_below_is_sufficient:
  "fge (round_double 1650.0099999999999) REQUIRED_BALANCE"
  unfolding REQUIRED_BALANCE_value round_double_just_below by simp

lemma float_below_is_insufficient:
  "\<not> fge (Fin (7256820723786710 / 2 ^ 42)) REQUIRED_BALANCE"
  by (simp add: REQUIRED_BALANCE_value)

subsection \<open>Counting calls\<close>

lemma calls_append [simp]: "calls ep (tr @ tr') = calls ep tr + calls ep tr'"
  by (simp add: calls_def)

lemma calls_Nil [simp]: "calls ep [] = 0"
  by (simp add: calls_def)

lemma calls_Cons_Request [simp]:
  "calls ep (Request r # tr) = (if endpoint_of r = ep then Suc (calls ep tr) else calls ep tr)"
  by (simp add: calls_def)

lemma calls_Cons_Sleep [simp]: "calls ep (Sleep n # tr) = calls ep tr"
  by (simp add: calls_def)

lemma calls_Cons_ReadClock [simp]: "calls ep (ReadClock # tr) = calls ep tr"
  by (simp add: calls_def)

subsection \<open>Reading a status\<close>

lemma get_payment_status_eq:
  "get_payment_status e pid tr =
     (payment_status_of (next_response e tr Status), tr @ [Request (GetPayment pid)])"
  by (simp add: get_payment_status_def send_def payment_status_of_def split: http_result.splits)

lemma is_dict_py_get: "is_dict v \<Longrightarrow> \<exists>w. py_get v k d = Inr w"
  by (cases v) simp_all

lemma py_get_Inr_is_dict: "py_get v k d = Inr w \<Longrightarrow> is_dict v"
  by (cases v) simp_all

lemma py_get_not_dict: "\<not> is_dict v \<Longrightarrow> py_get v k d = Inl AttributeError"
  by (cases v) simp_all

text \<open>The polling body, by what the status says.\<close>

lemma poll_once_falsy:
  assumes "\<not> truthy (payment_status_of (next_response e tr Status))"
  shows "poll_once e pid tr = (None, tr @ [Request (GetPayment pid)])"
  using assms by (simp add: poll_once_def get_payment_status_eq)

lemma cancelled_check_eq:
  assumes "is_dict st"
  shows "cancelled_check st tr =
     (if (case py_get st ''cancelled'' JNull of Inl x \<Rightarrow> False | Inr v \<Rightarrow> truthy v)
        \<or> (case py_get st ''user_cancelled'' JNull of Inl x \<Rightarrow> False | Inr v \<Rightarrow> truthy v)
      then (Some False, tr) else (None, tr))"
proof -
  from assms obtain c where c: "py_get st ''cancelled'' JNull = Inr c"
    using is_dict_py_get by blast
  from assms obtain u where u: "py_get st ''user_cancelled'' JNull = Inr u"
    using is_dict_py_get by blast
  show ?thesis by (simp add: cancelled_check_def c u)
qed

lemma cancelled_check_result:
  "cancelled_check st tr = (Some False, tr) \<or> cancelled_check st tr = (None, tr)"
  by (simp add: cancelled_check_def split: sum.splits)

lemma poll_once_not_verified:
  assumes ps: "ps = payment_status_of (next_response e tr Status)"
    and "\<not> reports_verified_uncompleted ps"
  shows "poll_once e pid tr = (Some False, tr @ [Request (GetPayment pid)])
       \<or> poll_once e pid tr = (None, tr @ [Request (GetPayment pid)])"
proof (cases "truthy ps")
  case False
  then show ?thesis using poll_once_falsy ps by simp
next
  case True
  show ?thesis
  proof (cases "py_get ps ''status'' (JObj [])")
    case (Inl x)
    then show ?thesis using True by (simp add: poll_once_def get_payment_status_eq ps[symmetric])
  next
    case (Inr st)
    show ?thesis
    proof (cases "py_get st ''transaction_verified'' JNull")
      case (Inl x)
      then show ?thesis using True Inr
        by (simp add: poll_once_def get_payment_status_eq ps[symmetric])
    next
      case tv: (Inr verified)
      then have "is_dict st" by (rule py_get_Inr_is_dict)
      then obtain dc where dc: "py_get st ''developer_completed'' JNull = Inr dc"
        using is_dict_py_get by blast
      from assms(2) True Inr tv dc have "\<not> truthy verified \<or> truthy dc"
        by (simp add: reports_verified_uncompleted_def status_flag_def)
      then show ?thesis
        using True Inr tv dc cancelled_check_result [of st "tr @ [Request (GetPayment pid)]"]
        by (auto simp add: poll_once_def get_payment_status_eq ps[symmetric])
    qed
  qed
qed

subsection \<open>The polling loop\<close>

declare poll_loop.simps [simp del]

lemma nth_status_0: "payment_status_of (next_response e tr Status) = nth_status e tr 0"
  by (simp add: nth_status_def next_response_def)

lemma nth_status_step:
  "nth_status e (tr @ [Request (GetPayment pid), Sleep n]) i = nth_status e tr (Suc i)"
  by (simp add: nth_status_def)

lemma poll_once_cancelled:
  assumes ps: "ps = payment_status_of (next_response e tr Status)"
    and nv: "\<not> reports_verified_uncompleted ps"
    and c: "reports_cancelled ps"
  shows "poll_once e pid tr = (Some False, tr @ [Request (GetPayment pid)])"
proof -
  from c have t: "truthy ps" by (simp add: reports_cancelled_def)
  from c obtain st where st: "py_get ps ''status'' (JObj []) = Inr st"
    by (cases "py_get ps ''status'' (JObj [])")
       (simp_all add: reports_cancelled_def status_flag_def)
  from c st have d: "is_dict st"
    by (cases st) (auto simp add: reports_cancelled_def status_flag_def)
  from d obtain tv where tv: "py_get st ''transaction_verified'' JNull = Inr tv"
    using is_dict_py_get by blast
  from d obtain dc where dc: "py_get st ''developer_completed'' JNull = Inr dc"
    using is_dict_py_get by blast
  from nv t st tv dc have "\<not> truthy tv \<or> truthy dc"
    by (simp add: reports_verified_uncompleted_def status_flag_def)
  moreover from c t st have "cancelled_check st (tr @ [Request (GetPayment pid)])
      = (Some False, tr @ [Request (GetPayment pid)])"
    by (simp add: cancelled_check_eq [OF d] reports_cancelled_def status_flag_def)
  ultimately show ?thesis using t st tv dc
    by (auto simp add: poll_once_def get_payment_status_eq ps[symmetric])
qed

lemma poll_once_pending:
  assumes ps: "ps = payment_status_of (next_response e tr Status)"
    and wf: "well_formed_status ps"
    and nv: "\<not> reports_verified_uncompleted ps"
    and nc: "\<not> reports_cancelled ps"
  shows "poll_once e pid tr = (None, tr @ [Request (GetPayment pid)])"
proof (cases "truthy ps")
  case False
  then show ?thesis using poll_once_falsy ps by simp
next
  case t: True
  with wf obtain st where st: "py_get ps ''status'' (JObj []) = Inr st" and d: "is_dict st"
    by (cases "py_get ps ''status'' (JObj [])") (simp_all add: well_formed_status_def)
  from d obtain tv where tv: "py_get st ''transaction_verified'' JNull = Inr tv"
    using is_dict_py_get by blast
  from d obtain dc where dc: "py_get st ''developer_completed'' JNull = Inr dc"
    using is_dict_py_get by blast
  from nv t st tv dc have "\<not> truthy tv \<or> truthy dc"
    by (simp add: reports_verified_uncompleted_def status_flag_def)
  moreover from nc t st have "cancelled_check st (tr @ [Request (GetPayment pid)])
      = (None, tr @ [Request (GetPayment pid)])"
    by (simp add: cancelled_check_eq [OF d] reports_cancelled_def status_flag_def)
  ultimately show ?thesis using t st tv dc
    by (auto simp add: poll_once_def get_payment_status_eq ps[symmetric])
qed

lemma poll_loop_cancelled:
  assumes "reports_cancelled (nth_status e tr k)"
    and "\<forall>i\<le>k. \<not> reports_verified_uncompleted (nth_status e tr i)"
  shows "fst (poll_loop e pid a tr) = False
       \<and> calls Complete (snd (poll_loop e pid a tr)) = calls Complete tr"
  using assms
proof (induction k arbitrary: a tr)
  case 0
  then have "poll_once e pid tr = (Some False, tr @ [Request (GetPayment pid)])"
    by (intro poll_once_cancelled [OF refl]) (simp_all add: nth_status_0)
  then show ?case by (subst (1 2) poll_loop.simps) simp
next
  case (Suc k)
  from Suc.prems(2) have "\<not> reports_verified_uncompleted (nth_status e tr 0)" by blast
  then consider
      "poll_once e pid tr = (Some False, tr @ [Request (GetPayment pid)])"
    | "poll_once e pid tr = (None, tr @ [Request (GetPayment pid)])"
    using poll_once_not_verified [OF refl, of e tr pid] by (auto simp add: nth_status_0)
  then show ?case
  proof cases
    case 1
    then show ?thesis by (subst (1 2) poll_loop.simps) simp
  next
    case 2
    let ?tr = "tr @ [Request (GetPayment pid), Sleep 10]"
    have "fst (poll_loop e pid (a + 1) ?tr) = False
        \<and> calls Complete (snd (poll_loop e pid (a + 1) ?tr)) = calls Complete ?tr"
      using Suc.prems by (intro Suc.IH) (simp_all add: nth_status_step)
    then show ?thesis using 2 by (subst (1 2) poll_loop.simps) simp
  qed
qed

lemma poll_loop_pending:
  assumes "\<forall>i < max_attempts - a. well_formed_status (nth_status e tr i)
            \<and> \<not> reports_verified_uncompleted (nth_status e tr i)
            \<and> \<not> reports_cancelled (nth_status e tr i)"
  shows "poll_loop e pid a tr =
           (False, tr @ concat (replicate (max_attempts - a) [Request (GetPayment pid), Sleep 10]))"
  using assms
proof (induction n \<equiv> "max_attempts - a" arbitrary: a tr)
  case 0
  then show ?case by (subst poll_loop.simps) simp
next
  case (Suc n)
  from Suc.hyps(2) have lt: "a < max_attempts" and n: "n = max_attempts - (a + 1)" by simp_all
  have once: "poll_once e pid tr = (None, tr @ [Request (GetPayment pid)])"
    using Suc.prems Suc.hyps(2) [symmetric]
    by (intro poll_once_pending [OF refl]) (simp_all add: nth_status_0)
  let ?tr = "tr @ [Request (GetPayment pid), Sleep 10]"
  have "poll_loop e pid (a + 1) ?tr =
      (False, ?tr @ concat (replicate (max_attempts - (a + 1)) [Request (GetPayment pid), Sleep 10]))"
    using Suc.prems Suc.hyps(2) [symmetric] by (intro Suc.hyps(1) [OF n]) (simp add: nth_status_step)
  then show ?case using lt once Suc.hyps(2) [symmetric] n
    by (subst poll_loop.simps) simp
qed

subsection \<open>Extending a trace\<close>

lemma extends_refl: "extends P tr tr"
  by (simp add: extends_def)

lemma extends_snoc: "P ev \<Longrightarrow> extends P tr (tr @ [ev])"
  by (simp add: extends_def)

lemma extends_trans: "extends P tr tr1 \<Longrightarrow> extends P tr1 tr2 \<Longrightarrow> extends P tr tr2"
  unfolding extends_def by (metis append.assoc list_all_append)

lemma extends_weaken: "extends P tr tr' \<Longrightarrow> (\<And>ev. P ev \<Longrightarrow> Q ev) \<Longrightarrow> extends Q tr tr'"
  unfolding extends_def by (auto simp add: list_all_iff)

lemma extends_filter:
  assumes "extends P tr tr'" and "\<And>ev. P ev \<Longrightarrow> \<not> Q ev"
  shows "filter Q tr' = filter Q tr"
proof -
  from assms(1) obtain added where a: "tr' = tr @ added" "list_all P added"
    by (auto simp add: extends_def)
  then have "filter Q added = []" using assms(2) by (auto simp add: list_all_iff filter_empty_conv)
  then show ?thesis using a by simp
qed

lemma extends_calls:
  assumes "extends P tr tr'" and "\<And>ev. P ev \<Longrightarrow> \<not> is_call ep ev"
  shows "calls ep tr' = calls ep tr"
  using extends_filter [OF assms] by (simp add: calls_def)

lemma extends_clock_reads:
  assumes "extends P tr tr'" and "\<And>ev. P ev \<Longrightarrow> \<not> is_clock ev"
  shows "clock_reads tr' = clock_reads tr"
  using extends_filter [OF assms] by (simp add: clock_reads_def)

lemma cancelled_check_trace [simp]: "snd (cancelled_check st tr) = tr"
  by (simp add: cancelled_check_def split: sum.splits)

lemma complete_payment_trace [simp]:
  "snd (complete_payment e pid txid tr) = tr @ [Request (PostComplete pid)]"
  by (simp add: complete_payment_def complete_payment_internal_def send_def split: http_result.splits)

lemma poll_once_trace:
  "snd (poll_once e pid tr) = tr @ [Request (GetPayment pid)]
   \<or> snd (poll_once e pid tr) = tr @ [Request (GetPayment pid), Request (PostComplete pid)]"
proof -
  have c: "\<And>x tx t. snd (case complete_payment e pid tx t of
                (ok, tr2) \<Rightarrow> if ok then (Some True, tr2) else cancelled_check x tr2)
            = t @ [Request (PostComplete pid)]"
    by (simp add: case_prod_beta)
  show ?thesis
    unfolding poll_once_def get_payment_status_eq
    by (simp add: c split: sum.splits)
qed

lemma poll_once_extends: "extends (polling_event pid) tr (snd (poll_once e pid tr))"
  using poll_once_trace [of e pid tr] by (auto simp add: extends_def)

lemma poll_loop_extends: "extends (polling_event pid) tr (snd (poll_loop e pid a tr))"
proof (induction n \<equiv> "max_attempts - a" arbitrary: a tr)
  case 0
  then show ?case by (subst poll_loop.simps) (simp add: extends_refl)
next
  case (Suc n)
  from Suc.hyps(2) have lt: "a < max_attempts" and n: "n = max_attempts - (a + 1)" by simp_all
  obtain r tr1 where p: "poll_once e pid tr = (r, tr1)" by (cases "poll_once e pid tr")
  have e1: "extends (polling_event pid) tr tr1" using poll_once_extends [of pid tr e] p by simp
  show ?case
  proof (cases r)
    case None
    have "extends (polling_event pid) tr1 (tr1 @ [Sleep 10])" by (rule extends_snoc) simp
    moreover have "extends (polling_event pid) (tr1 @ [Sleep 10])
        (snd (poll_loop e pid (a + 1) (tr1 @ [Sleep 10])))"
      by (rule Suc.hyps(1) [OF n])
    ultimately have "extends (polling_event pid) tr (snd (poll_loop e pid (a + 1) (tr1 @ [Sleep 10])))"
      using e1 extends_trans by blast
    then show ?thesis using lt p None by (subst poll_loop.simps) simp
  next
    case (Some b)
    then show ?thesis using lt p e1 by (subst poll_loop.simps) simp
  qed
qed

lemma poll_loop_counts:
  "\<exists>n m. calls Status (snd (poll_loop e pid a tr)) = calls Status tr + n
       \<and> calls Complete (snd (poll_loop e pid a tr)) = calls Complete tr + m
       \<and> m \<le> n \<and> n \<le> max_attempts - a"
proof (induction k \<equiv> "max_attempts - a" arbitrary: a tr)
  case 0
  then show ?case by (subst (1 2) poll_loop.simps) simp
next
  case (Suc k)
  from Suc.hyps(2) have lt: "a < max_attempts" and k: "k = max_attempts - (a + 1)" by simp_all
  obtain r tr1 where p: "poll_once e pid tr = (r, tr1)" by (cases "poll_once e pid tr")
  have t: "tr1 = tr @ [Request (GetPayment pid)]
         \<or> tr1 = tr @ [Request (GetPayment pid), Request (PostComplete pid)]"
    using poll_once_trace [of e pid tr] p by simp
  then have c1: "calls Status tr1 = calls Status tr + 1"
    and c2: "calls Complete tr1 = calls Complete tr \<or> calls Complete tr1 = calls Complete tr + 1"
    by auto
  show ?case
  proof (cases r)
    case (Some b)
    have "calls Status tr1 = calls Status tr + 1 \<and> (1::nat) \<le> max_attempts - a"
      using c1 lt by simp
    moreover from c2 have "\<exists>m. calls Complete tr1 = calls Complete tr + m \<and> m \<le> 1" by auto
    ultimately show ?thesis using lt p Some by (subst (1 2) poll_loop.simps) auto
  next
    case None
    let ?tr = "tr1 @ [Sleep 10]"
    from Suc.hyps(1) [OF k, of ?tr] obtain n m where
      nm: "calls Status (snd (poll_loop e pid (a + 1) ?tr)) = calls Status ?tr + n"
          "calls Complete (snd (poll_loop e pid (a + 1) ?tr)) = calls Complete ?tr + m"
          "m \<le> n" "n \<le> max_attempts - (a + 1)"
      by blast
    from c2 obtain m1 where m1: "calls Complete tr1 = calls Complete tr + m1" "m1 \<le> 1" by auto
    have "calls Status (snd (poll_loop e pid (a + 1) ?tr)) = calls Status tr + (n + 1)"
      using nm(1) c1 by simp
    moreover have "calls Complete (snd (poll_loop e pid (a + 1) ?tr)) = calls Complete tr + (m + m1)"
      using nm(2) m1(1) by simp
    moreover have "m + m1 \<le> n + 1" "n + 1 \<le> max_attempts - a" using nm(3,4) m1(2) lt by simp_all
    ultimately have "\<exists>n m. calls Status (snd (poll_loop e pid (a + 1) ?tr)) = calls Status tr + n
       \<and> calls Complete (snd (poll_loop e pid (a + 1) ?tr)) = calls Complete tr + m
       \<and> m \<le> n \<and> n \<le> max_attempts - a"
      by blast
    then show ?thesis using lt p None by (subst (1 2) poll_loop.simps) simp
  qed
qed

lemma complete_payment_fails:
  assumes "completion_fails (next_response e tr Complete)"
  shows "complete_payment e pid txid tr = (False, tr @ [Request (PostComplete pid)])"
  using assms
  by (simp add: complete_payment_def complete_payment_internal_def send_def completion_fails_def
      split: http_result.splits)

lemma poll_once_retry:
  assumes ps: "ps = payment_status_of (next_response e tr Status)"
    and v: "reports_verified_uncompleted ps"
    and t: "has_transaction_record ps"
    and f: "completion_fails (next_response e tr Complete)"
    and nc: "\<not> reports_cancelled ps"
  shows "poll_once e pid tr = (None, tr @ [Request (GetPayment pid), Request (PostComplete pid)])"
proof -
  from v have tr: "truthy ps" by (simp add: reports_verified_uncompleted_def)
  from v obtain st where st: "py_get ps ''status'' (JObj []) = Inr st"
    by (cases "py_get ps ''status'' (JObj [])")
       (simp_all add: reports_verified_uncompleted_def status_flag_def)
  from v st have d: "is_dict st"
    by (cases st) (auto simp add: reports_verified_uncompleted_def status_flag_def)
  from d obtain tv where tv: "py_get st ''transaction_verified'' JNull = Inr tv"
    using is_dict_py_get by blast
  from d obtain dc where dc: "py_get st ''developer_completed'' JNull = Inr dc"
    using is_dict_py_get by blast
  from v st tv dc have flags: "truthy tv" "\<not> truthy dc"
    by (simp_all add: reports_verified_uncompleted_def status_flag_def)
  from t obtain tx where tx: "py_get ps ''transaction'' (JObj []) = Inr tx" and dtx: "is_dict tx"
    by (cases "py_get ps ''transaction'' (JObj [])") (simp_all add: has_transaction_record_def)
  from dtx obtain txid where txid: "py_get tx ''txid'' JNull = Inr txid"
    using is_dict_py_get by blast
  have f': "completion_fails (next_response e (tr @ [Request (GetPayment pid)]) Complete)"
    using f by (simp add: next_response_def)
  have cc: "cancelled_check st (tr @ [Request (GetPayment pid), Request (PostComplete pid)])
      = (None, tr @ [Request (GetPayment pid), Request (PostComplete pid)])"
    using nc tr st by (simp add: cancelled_check_eq [OF d] reports_cancelled_def status_flag_def)
  show ?thesis
    using tr st tv dc flags tx txid cc
    by (simp add: poll_once_def get_payment_status_eq ps[symmetric]
          complete_payment_fails [OF f'])
qed

lemma poll_once_verified:
  assumes ps: "ps = payment_status_of (next_response e tr Status)"
    and v: "reports_verified_uncompleted ps"
    and t: "has_transaction_record ps"
  shows "snd (poll_once e pid tr) = tr @ [Request (GetPayment pid), Request (PostComplete pid)]"
proof -
  from v have tr: "truthy ps" by (simp add: reports_verified_uncompleted_def)
  from v obtain st where st: "py_get ps ''status'' (JObj []) = Inr st"
    by (cases "py_get ps ''status'' (JObj [])")
       (simp_all add: reports_verified_uncompleted_def status_flag_def)
  from v st have d: "is_dict st"
    by (cases st) (auto simp add: reports_verified_uncompleted_def status_flag_def)
  from d obtain tv where tv: "py_get st ''transaction_verified'' JNull = Inr tv"
    using is_dict_py_get by blast
  from d obtain dc where dc: "py_get st ''developer_completed'' JNull = Inr dc"
    using is_dict_py_get by blast
  from v st tv dc have flags: "truthy tv" "\<not> truthy dc"
    by (simp_all add: reports_verified_uncompleted_def status_flag_def)
  from t obtain tx where tx: "py_get ps ''transaction'' (JObj []) = Inr tx" and dtx: "is_dict tx"
    by (cases "py_get ps ''transaction'' (JObj [])") (simp_all add: has_transaction_record_def)
  from dtx obtain txid where txid: "py_get tx ''txid'' JNull = Inr txid"
    using is_dict_py_get by blast
  show ?thesis
    using tr st tv dc flags tx txid
    by (simp add: poll_once_def get_payment_status_eq ps[symmetric] case_prod_beta)
qed

lemma create_payment_trace:
  "snd (create_payment e self r amount memo tr) = tr
   \<or> snd (create_payment e self r amount memo tr) = tr @ [Request (PostPayment r amount memo (user_uid self))]"
  by (simp add: create_payment_def send_def split: sum.splits http_result.splits)

lemma approve_payment_trace [simp]:
  "snd (approve_payment e pid tr) = tr @ [Request (PostApprove pid)]"
  by (simp add: approve_payment_def send_def split: http_result.splits)

lemma create_payment_calls:
  "ep \<noteq> Create \<Longrightarrow> calls ep (snd (create_payment e self r amount memo tr)) = calls ep tr"
  using create_payment_trace [of e self r amount memo tr] by auto

lemma nth_status_cong: "calls Status tr' = calls Status tr \<Longrightarrow> nth_status e tr' i = nth_status e tr i"
  by (simp add: nth_status_def)

lemma poll_loop_retry_step:
  assumes "a < max_attempts"
    and "reports_verified_uncompleted (nth_status e tr 0)"
    and "has_transaction_record (nth_status e tr 0)"
    and "completion_fails (next_response e tr Complete)"
    and "\<not> reports_cancelled (nth_status e tr 0)"
  shows "poll_loop e pid a tr =
           poll_loop e pid (a + 1)
             (tr @ [Request (GetPayment pid), Request (PostComplete pid), Sleep 10])"
proof -
  have "poll_once e pid tr = (None, tr @ [Request (GetPayment pid), Request (PostComplete pid)])"
    using assms(2-5) by (intro poll_once_retry [OF refl]) (simp_all add: nth_status_0)
  then show ?thesis using assms(1) by (subst poll_loop.simps) simp
qed

lemma execute_transfer_counts:
  "\<exists>n m. calls Status (snd (execute_transfer e self r amount tr)) = calls Status tr + n
       \<and> calls Complete (snd (execute_transfer e self r amount tr)) = calls Complete tr + m
       \<and> m \<le> n \<and> n \<le> 60"
proof -
  obtain pid tr1 where c: "create_payment e self r amount (transfer_memo e amount) tr = (pid, tr1)"
    by (cases "create_payment e self r amount (transfer_memo e amount) tr")
  obtain ok tr2 where a: "approve_payment e pid tr1 = (ok, tr2)"
    by (cases "approve_payment e pid tr1")
  have s1: "calls Status tr1 = calls Status tr" and c1: "calls Complete tr1 = calls Complete tr"
    using create_payment_calls [of _ e self r amount "transfer_memo e amount" tr] c by simp_all
  have t2: "tr2 = tr1 @ [Request (PostApprove pid)]"
    using approve_payment_trace [of e pid tr1] a by simp
  then have s2: "calls Status tr2 = calls Status tr" and c2: "calls Complete tr2 = calls Complete tr"
    using s1 c1 by simp_all
  have z: "\<exists>n m. calls Status t = calls Status t + n \<and> calls Complete t = calls Complete t + m
       \<and> m \<le> n \<and> n \<le> 60" for t
    by (rule exI [of _ 0], rule exI [of _ 0]) simp
  show ?thesis
  proof (cases "truthy pid \<and> ok")
    case True
    then show ?thesis
      using poll_loop_counts [of e pid 0 tr2] c a s2 c2
      by (simp add: execute_transfer_def max_attempts_def)
  next
    case False
    then show ?thesis using c a s1 c1 s2 c2 z [of tr] by (auto simp add: execute_transfer_def)
  qed
qed

subsection \<open>Failed calls\<close>

lemma get_user_info_fails:
  "network_error (next_response e tr Me) \<or> application_rejection [200] (next_response e tr Me)
   \<Longrightarrow> get_user_info e self tr = (Inr JNull, self, tr @ [Request GetMe])"
  by (auto simp add: get_user_info_def send_def network_error_def application_rejection_def
        split: http_result.splits)

lemma get_wallet_balance_fails:
  "truthy (wallet_address self) \<Longrightarrow>
   network_error (next_response e tr Balance) \<or> application_rejection [200] (next_response e tr Balance)
   \<Longrightarrow> get_wallet_balance e self tr = (JNull, tr @ [Request (GetWalletBalance (wallet_address self))])"
  by (auto simp add: get_wallet_balance_def send_def network_error_def application_rejection_def
        split: http_result.splits)

lemma get_pending_payments_fails:
  "network_error (next_response e tr Pending) \<or> application_rejection [200] (next_response e tr Pending)
   \<Longrightarrow> get_pending_payments e self tr = (Inr JNull, tr @ [Request GetPendingPayments])"
  by (auto simp add: get_pending_payments_def send_def network_error_def application_rejection_def
        split: http_result.splits)

lemma create_payment_fails:
  "r = allowed_recipient self \<Longrightarrow>
   network_error (next_response e tr Create) \<or> application_rejection [200, 201] (next_response e tr Create)
   \<Longrightarrow> create_payment e self r amount memo tr
       = (JNull, tr @ [Request (PostPayment r amount memo (user_uid self))])"
  by (auto simp add: create_payment_def validate_recipient_address_def send_def network_error_def
        application_rejection_def split: http_result.splits)

lemma approve_payment_fails:
  "network_error (next_response e tr Approve) \<or> application_rejection [200] (next_response e tr Approve)
   \<Longrightarrow> approve_payment e pid tr = (False, tr @ [Request (PostApprove pid)])"
  by (auto simp add: approve_payment_def send_def network_error_def application_rejection_def
        split: http_result.splits)

lemma get_payment_status_fails:
  "network_error (next_response e tr Status) \<or> application_rejection [200] (next_response e tr Status)
   \<Longrightarrow> get_payment_status e pid tr = (JNull, tr @ [Request (GetPayment pid)])"
  by (auto simp add: get_payment_status_def send_def network_error_def application_rejection_def
        split: http_result.splits)

lemma complete_payment_internal_fails:
  "network_error (next_response e tr Complete) \<or> application_rejection [200] (next_response e tr Complete)
   \<Longrightarrow> complete_payment_internal e pid tr = (False, tr @ [Request (PostComplete pid)])"
  by (auto simp add: complete_payment_internal_def send_def network_error_def application_rejection_def
        split: http_result.splits)

text \<open>
  A 200 response whose body is not an object is outside these cases: the identity
  lookup then lets the \<^verbatim>\<open>AttributeError\<close> of \<^verbatim>\<open>.get\<close> escape to its caller.
\<close>

lemma get_user_info_raises_on_non_object_body:
  "next_response e tr Me = Response 200 (JArr xs)
   \<Longrightarrow> fst (get_user_info e self tr) = Inl AttributeError"
  by (simp add: get_user_info_def send_def)

lemma lower_false: "lower ''false'' = ''false''"
  by (simp add: lower_def lower_char_def)

subsection \<open>The sweep over the pending payments\<close>

lemma complete_payment_internal_trace [simp]:
  "snd (complete_payment_internal e pid tr) = tr @ [Request (PostComplete pid)]"
  by (simp add: complete_payment_internal_def send_def split: http_result.splits)

lemma confirm_payments_skip:
  assumes "is_dict payment" "\<not> explicitly_uncompleted payment" "payment_record payment"
  shows "confirm_payments e (payment # rest) tr = confirm_payments e rest tr"
  using assms
  by (cases payment)
     (auto simp add: explicitly_uncompleted_def payment_record_def
        split: option.splits json.splits)

lemma confirm_payments_abort:
  assumes "\<not> payment_record payment"
  shows "confirm_payments e (payment # rest) tr = (False, tr)"
  using assms
  by (cases payment)
     (auto simp add: payment_record_def py_get_not_dict split: option.splits)

lemma confirm_payments_complete:
  assumes "explicitly_uncompleted payment"
  shows "confirm_payments e (payment # rest) tr
       = confirm_payments e rest (tr @ [completion_request payment])"
proof -
  from assms obtain kvs where p: "payment = JObj kvs"
    by (cases payment) (simp_all add: explicitly_uncompleted_def)
  define pid where "pid = (case map_of kvs ''identifier'' of None \<Rightarrow> JNull | Some v \<Rightarrow> v)"
  have r: "completion_request payment = Request (PostComplete pid)"
    by (simp add: completion_request_def p pid_def)
  obtain ok tr1 where c: "complete_payment_internal e pid tr = (ok, tr1)"
    by (cases "complete_payment_internal e pid tr")
  then have "tr1 = tr @ [Request (PostComplete pid)]"
    using complete_payment_internal_trace [of e pid tr] by simp
  then show ?thesis using assms c r
    by (auto simp add: explicitly_uncompleted_def p pid_def split: option.splits json.splits)
qed

lemma confirm_payments_trace:
  "\<exists>n\<le>length payments.
     snd (confirm_payments e payments tr)
       = tr @ map completion_request (filter explicitly_uncompleted (take n payments))"
proof (induction payments arbitrary: tr)
  case Nil
  then show ?case by simp
next
  case (Cons p ps)
  consider (abort) "\<not> payment_record p"
    | (skip) "payment_record p" "\<not> explicitly_uncompleted p"
    | (complete) "explicitly_uncompleted p"
    by blast
  then show ?case
  proof cases
    case abort
    have "snd (confirm_payments e (p # ps) tr)
        = tr @ map completion_request (filter explicitly_uncompleted (take 0 (p # ps)))"
      using confirm_payments_abort [OF abort] by simp
    then show ?thesis by blast
  next
    case skip
    from skip(1) have "is_dict p" by (cases p) (simp_all add: payment_record_def)
    then have eq: "confirm_payments e (p # ps) tr = confirm_payments e ps tr"
      using skip by (intro confirm_payments_skip)
    from Cons.IH [of tr] obtain n where n: "n \<le> length ps"
      "snd (confirm_payments e ps tr)
         = tr @ map completion_request (filter explicitly_uncompleted (take n ps))"
      by blast
    have "snd (confirm_payments e (p # ps) tr)
        = tr @ map completion_request (filter explicitly_uncompleted (take (Suc n) (p # ps)))"
      using eq n(2) skip(2) by simp
    moreover have "Suc n \<le> length (p # ps)" using n(1) by simp
    ultimately show ?thesis by blast
  next
    case complete
    have eq: "confirm_payments e (p # ps) tr = confirm_payments e ps (tr @ [completion_request p])"
      by (rule confirm_payments_complete [OF complete])
    from Cons.IH [of "tr @ [completion_request p]"] obtain n where n: "n \<le> length ps"
      "snd (confirm_payments e ps (tr @ [completion_request p]))
         = (tr @ [completion_request p])
             @ map completion_request (filter explicitly_uncompleted (take n ps))"
      by blast
    have "snd (confirm_payments e (p # ps) tr)
        = tr @ map completion_request (filter explicitly_uncompleted (take (Suc n) (p # ps)))"
      using eq n(2) complete by simp
    moreover have "Suc n \<le> length (p # ps)" using n(1) by simp
    ultimately show ?thesis by blast
  qed
qed

lemma confirm_payments_all:
  "list_all payment_record payments \<Longrightarrow>
   confirm_payments e payments tr
     = (True, tr @ map completion_request (filter explicitly_uncompleted payments))"
proof (induction payments arbitrary: tr)
  case Nil
  then show ?case by simp
next
  case (Cons p ps)
  then have r: "payment_record p" and rs: "list_all payment_record ps" by simp_all
  from r have d: "is_dict p" by (cases p) (simp_all add: payment_record_def)
  show ?case
  proof (cases "explicitly_uncompleted p")
    case True
    then show ?thesis
      using confirm_payments_complete [OF True, of e ps tr] Cons.IH [OF rs] by simp
  next
    case False
    then show ?thesis
      using confirm_payments_skip [OF d False r, of e ps tr] Cons.IH [OF rs] by simp
  qed
qed

lemma confirm_unlock_eq:
  "snd (confirm_unlock e self tr)
     = snd (confirm_payments e (reported_payments e tr) (tr @ [Request GetPendingPayments]))
   \<and> (reported_payments e tr \<noteq> [] \<longrightarrow>
        confirm_unlock e self tr
          = confirm_payments e (reported_payments e tr) (tr @ [Request GetPendingPayments]))"
proof (cases "next_response e tr Pending")
  case RequestException
  then show ?thesis
    by (simp add: confirm_unlock_def get_pending_payments_def send_def reported_payments_def)
next
  case (Response code body)
  show ?thesis
  proof (cases "code = 200")
    case False
    then show ?thesis using Response
      by (simp add: confirm_unlock_def get_pending_payments_def send_def reported_payments_def)
  next
    case True
    show ?thesis
    proof (cases "py_get body ''payments'' (JArr [])")
      case (Inl x)
      then show ?thesis using Response True
        by (simp add: confirm_unlock_def get_pending_payments_def send_def reported_payments_def)
    next
      case (Inr pending)
      then show ?thesis using Response True
        by (cases pending)
           (auto simp add: confirm_unlock_def get_pending_payments_def send_def
              reported_payments_def)
    qed
  qed
qed

lemma lacks_flag_not_explicit:
  assumes "map_of kvs ''status'' = None
         \<or> (\<exists>st. map_of kvs ''status'' = Some (JObj st) \<and> map_of st ''developer_completed'' = None)"
  shows "\<not> explicitly_uncompleted (JObj kvs)" "payment_record (JObj kvs)"
  using assms by (auto simp add: explicitly_uncompleted_def payment_record_def)

lemma reported_payments_unlock_env:
  "reported_payments unlock_env [] =
     [JObj [(''identifier'', JStr ''pay-1'')],
      JObj [(''identifier'', JStr ''pay-2''), (''status'', JObj [])],
      JObj [(''identifier'', JStr ''pay-3''),
            (''status'', JObj [(''developer_completed'', JBool False)])],
      JObj [(''identifier'', JStr ''pay-4''),
            (''status'', JObj [(''developer_completed'', JBool True)])]]"
  by (simp add: reported_payments_def next_response_def unlock_env_def)

subsection \<open>What one cycle adds to the trace\<close>

lemma get_user_info_trace [simp]:
  "snd (snd (get_user_info e self tr)) = tr @ [Request GetMe]"
  by (simp add: get_user_info_def send_def split: http_result.splits sum.splits)

lemma get_wallet_balance_trace:
  "snd (get_wallet_balance e self tr) = tr
   \<or> snd (get_wallet_balance e self tr) = tr @ [Request (GetWalletBalance (wallet_address self))]"
  by (simp add: get_wallet_balance_def send_def split: http_result.splits)

lemma get_available_balance_trace:
  "snd (get_available_balance e self tr) = snd (get_wallet_balance e self tr)"
  by (simp add: get_available_balance_def split: prod.splits sum.splits)

lemma get_available_balance_extends:
  "extends (is_call Balance) tr (snd (get_available_balance e self tr))"
  using get_wallet_balance_trace [of e self tr]
  by (auto simp add: get_available_balance_trace extends_def)

lemma completion_request_is_call [simp]: "is_call Complete (completion_request p)"
  by (simp add: completion_request_def)

lemma unlock_sweep_trace:
  "\<exists>n\<le>length (reported_payments e tr).
     snd (confirm_unlock e self tr)
       = tr @ Request GetPendingPayments
            # map completion_request
                (filter explicitly_uncompleted (take n (reported_payments e tr)))"
proof -
  have "snd (confirm_unlock e self tr)
      = snd (confirm_payments e (reported_payments e tr) (tr @ [Request GetPendingPayments]))"
    using confirm_unlock_eq [of e self tr] by blast
  then show ?thesis
    using confirm_payments_trace [of "reported_payments e tr" e "tr @ [Request GetPendingPayments]"]
    by simp
qed

lemma confirm_unlock_extends:
  "extends (\<lambda>ev. is_call Pending ev \<or> is_call Complete ev) tr (snd (confirm_unlock e self tr))"
proof -
  from unlock_sweep_trace [of e tr self] obtain n where
    "snd (confirm_unlock e self tr)
       = tr @ Request GetPendingPayments
            # map completion_request (filter explicitly_uncompleted (take n (reported_payments e tr)))"
    by blast
  then show ?thesis by (simp add: extends_def list_all_iff)
qed

lemma polling_event_cycle: "polling_event pid ev \<Longrightarrow> cycle_event ev \<and> \<not> is_call Create ev"
  by (cases ev) auto

lemma execute_transfer_extends:
  "extends (\<lambda>ev. cycle_event ev \<and> \<not> is_call Create ev)
     (snd (create_payment e self r amount (transfer_memo e amount) tr))
     (snd (execute_transfer e self r amount tr))"
proof -
  let ?P = "\<lambda>ev. cycle_event ev \<and> \<not> is_call Create ev"
  obtain pid tr1 where c: "create_payment e self r amount (transfer_memo e amount) tr = (pid, tr1)"
    by (cases "create_payment e self r amount (transfer_memo e amount) tr")
  obtain ok tr2 where a: "approve_payment e pid tr1 = (ok, tr2)"
    by (cases "approve_payment e pid tr1")
  have t2: "tr2 = tr1 @ [Request (PostApprove pid)]"
    using approve_payment_trace [of e pid tr1] a by simp
  have e2: "extends ?P tr1 tr2" unfolding t2 by (rule extends_snoc) simp
  have "extends ?P tr2 (snd (poll_loop e pid 0 tr2))"
    using poll_loop_extends [of pid tr2 e 0] polling_event_cycle
    by (rule extends_weaken)
  with e2 have e3: "extends ?P tr1 (snd (poll_loop e pid 0 tr2))" by (rule extends_trans)
  show ?thesis using c a e2 e3 by (simp add: execute_transfer_def extends_refl)
qed

lemma create_payment_allowed_trace:
  "snd (create_payment e self (allowed_recipient self) amount memo tr)
     = tr @ [Request (PostPayment (allowed_recipient self) amount memo (user_uid self))]"
  by (simp add: create_payment_def validate_recipient_address_def send_def
        split: http_result.splits sum.splits)

lemma execute_transfer_allowed_extends:
  "extends cycle_event tr (snd (execute_transfer e self (allowed_recipient self) amount tr))"
  "calls Create (snd (execute_transfer e self (allowed_recipient self) amount tr))
     = calls Create tr + 1"
proof -
  let ?r = "allowed_recipient self"
  let ?tr1 = "tr @ [Request (PostPayment ?r amount (transfer_memo e amount) (user_uid self))]"
  have x: "extends (\<lambda>ev. cycle_event ev \<and> \<not> is_call Create ev) ?tr1
      (snd (execute_transfer e self ?r amount tr))"
    using execute_transfer_extends [of e self ?r amount tr]
    by (simp add: create_payment_allowed_trace)
  have "extends cycle_event tr ?tr1" by (rule extends_snoc) simp
  moreover from x have "extends cycle_event ?tr1 (snd (execute_transfer e self ?r amount tr))"
    by (rule extends_weaken) simp
  ultimately show "extends cycle_event tr (snd (execute_transfer e self ?r amount tr))"
    by (rule extends_trans)
  have "calls Create (snd (execute_transfer e self ?r amount tr)) = calls Create ?tr1"
    using x by (rule extends_calls) simp
  then show "calls Create (snd (execute_transfer e self ?r amount tr)) = calls Create tr + 1"
    by simp
qed

lemma get_available_balance_failed:
  assumes "\<not> truthy (wallet_address self) \<or> network_error (next_response e tr Balance)
         \<or> application_rejection [200] (next_response e tr Balance)"
  shows "fst (get_wallet_balance e self tr) = JNull"
    and "fst (get_available_balance e self tr) = Inr (Fin 0)"
proof -
  show w: "fst (get_wallet_balance e self tr) = JNull"
    using assms
    by (auto simp add: get_wallet_balance_def send_def network_error_def application_rejection_def
          split: http_result.splits)
  then show "fst (get_available_balance e self tr) = Inr (Fin 0)"
    by (cases "get_wallet_balance e self tr") (simp add: get_available_balance_def)
qed

lemma is_call_other: "is_call ep ev \<Longrightarrow> ep' \<noteq> ep \<Longrightarrow> \<not> is_call ep' ev"
  by (cases ev) auto

lemma unlock_balance_calls:
  assumes "confirm_unlock e self tr = (unlocked, tr1)"
    and "get_available_balance e self tr1 = (rb, tr2)"
  shows "calls Create tr2 = calls Create tr" and "calls Balance tr1 = calls Balance tr"
    and "extends cycle_event tr tr2"
proof -
  have x1: "extends (\<lambda>ev. is_call Pending ev \<or> is_call Complete ev) tr tr1"
    using confirm_unlock_extends [of tr e self] assms(1) by simp
  have x2: "extends (is_call Balance) tr1 tr2"
    using get_available_balance_extends [of tr1 e self] assms(2) by simp
  have c1: "calls Create tr1 = calls Create tr"
    using x1 by (rule extends_calls) (auto dest: is_call_other)
  have c2: "calls Create tr2 = calls Create tr1"
    using x2 by (rule extends_calls) (auto dest: is_call_other)
  show "calls Create tr2 = calls Create tr" using c1 c2 by simp
  show "calls Balance tr1 = calls Balance tr"
    using x1 by (rule extends_calls) (auto dest: is_call_other)
  have "extends cycle_event tr tr1" using x1
  proof (rule extends_weaken)
    fix ev assume "is_call Pending ev \<or> is_call Complete ev"
    then show "cycle_event ev" by (cases ev) auto
  qed
  moreover have "extends cycle_event tr1 tr2" using x2
  proof (rule extends_weaken)
    fix ev assume "is_call Balance ev"
    then show "cycle_event ev" by (cases ev) auto
  qed
  ultimately show "extends cycle_event tr tr2" by (rule extends_trans)
qed

lemma unlock_and_transfer_eq:
  assumes "confirm_unlock e self tr = (unlocked, tr1)"
    and "get_available_balance e self tr1 = (Inr b, tr2)"
  shows "unlock_and_transfer e self tr =
           (if fge b REQUIRED_BALANCE then
              (case execute_transfer e self (allowed_recipient self) TRANSFER_AMOUNT tr2 of
                 (success, tr3) \<Rightarrow> (success, self, tr3))
            else (False, self, tr2))"
    and "calls Create (snd (snd (unlock_and_transfer e self tr)))
           = calls Create tr + (if fge b REQUIRED_BALANCE then 1 else 0)"
proof -
  show eq: "unlock_and_transfer e self tr =
           (if fge b REQUIRED_BALANCE then
              (case execute_transfer e self (allowed_recipient self) TRANSFER_AMOUNT tr2 of
                 (success, tr3) \<Rightarrow> (success, self, tr3))
            else (False, self, tr2))"
    using assms by (simp add: unlock_and_transfer_def)
  have c: "calls Create tr2 = calls Create tr" by (rule unlock_balance_calls(1) [OF assms])
  show "calls Create (snd (snd (unlock_and_transfer e self tr)))
           = calls Create tr + (if fge b REQUIRED_BALANCE then 1 else 0)"
    using c execute_transfer_allowed_extends(2) [of e self TRANSFER_AMOUNT tr2]
    by (simp add: eq case_prod_beta)
qed

lemma unlock_and_transfer_facts:
  "fst (snd (unlock_and_transfer e self tr)) = self"
  "extends cycle_event tr (snd (snd (unlock_and_transfer e self tr)))"
  "calls Create (snd (snd (unlock_and_transfer e self tr))) \<le> calls Create tr + 1"
proof -
  obtain unlocked tr1 where u: "confirm_unlock e self tr = (unlocked, tr1)"
    by (cases "confirm_unlock e self tr")
  obtain rb tr2 where b: "get_available_balance e self tr1 = (rb, tr2)"
    by (cases "get_available_balance e self tr1")
  note f = unlock_balance_calls [OF u b]
  have x: "extends cycle_event tr2
      (snd (execute_transfer e self (allowed_recipient self) TRANSFER_AMOUNT tr2))"
    by (rule execute_transfer_allowed_extends(1))
  have c: "calls Create (snd (execute_transfer e self (allowed_recipient self) TRANSFER_AMOUNT tr2))
      = calls Create tr + 1"
    using execute_transfer_allowed_extends(2) [of e self TRANSFER_AMOUNT tr2] f(1) by simp
  show "fst (snd (unlock_and_transfer e self tr)) = self"
    using u b by (cases rb) (simp_all add: unlock_and_transfer_def case_prod_beta)
  show "extends cycle_event tr (snd (snd (unlock_and_transfer e self tr)))"
    using u b f(3) extends_trans [OF f(3) x]
    by (cases rb) (simp_all add: unlock_and_transfer_def case_prod_beta)
  show "calls Create (snd (snd (unlock_and_transfer e self tr))) \<le> calls Create tr + 1"
    using u b f(1) c
    by (cases rb) (simp_all add: unlock_and_transfer_def case_prod_beta)
qed

lemma check_and_transfer_facts:
  "extends cycle_event tr (snd (snd (check_and_transfer e self tr)))"
  "calls Create (snd (snd (check_and_transfer e self tr))) \<le> calls Create tr + 1"
proof -
  obtain ru self1 tr1 where g: "get_user_info e self tr = (ru, self1, tr1)"
    by (cases "get_user_info e self tr")
  have t1: "tr1 = tr @ [Request GetMe]" using get_user_info_trace [of e self tr] g by simp
  have x1: "extends cycle_event tr tr1" unfolding t1 by (rule extends_snoc) simp
  have c1: "calls Create tr1 = calls Create tr" unfolding t1 by simp
  note a = unlock_and_transfer_facts(2) [of tr e self] unlock_and_transfer_facts(3) [of e self tr]
  note b = unlock_and_transfer_facts(2) [of tr1 e self1] unlock_and_transfer_facts(3) [of e self1 tr1]
  show "extends cycle_event tr (snd (snd (check_and_transfer e self tr)))"
    using g x1 a(1) extends_trans [OF x1 b(1)]
    by (cases ru) (simp_all add: check_and_transfer_def)
  show "calls Create (snd (snd (check_and_transfer e self tr))) \<le> calls Create tr + 1"
    using g c1 a(2) b(2)
    by (cases ru) (simp_all add: check_and_transfer_def)
qed

subsection \<open>The scheduler loop\<close>

lemma scheduler_sleeps_append [simp]:
  "scheduler_sleeps (tr @ tr') = scheduler_sleeps tr + scheduler_sleeps tr'"
  by (simp add: scheduler_sleeps_def)

lemma clock_reads_append [simp]: "clock_reads (tr @ tr') = clock_reads tr + clock_reads tr'"
  by (simp add: clock_reads_def)

lemma extends_scheduler_sleeps:
  assumes "extends cycle_event tr tr'"
  shows "scheduler_sleeps tr' = scheduler_sleeps tr" and "clock_reads tr' = clock_reads tr"
proof -
  have "filter is_scheduler_sleep tr' = filter is_scheduler_sleep tr"
    using assms
  proof (rule extends_filter)
    fix ev assume "cycle_event ev"
    then show "\<not> is_scheduler_sleep ev" by (cases ev) auto
  qed
  then show "scheduler_sleeps tr' = scheduler_sleeps tr" by (simp add: scheduler_sleeps_def)
  show "clock_reads tr' = clock_reads tr"
    using assms
  proof (rule extends_clock_reads)
    fix ev assume "cycle_event ev"
    then show "\<not> is_clock ev" by (cases ev) auto
  qed
qed

lemma monitoring_loop_reached:
  assumes "clock e (clock_reads tr + 1) \<ge> TARGET_DATETIME"
  shows "monitoring_loop e self tr = Some (snd (check_and_transfer e self (tr @ [ReadClock, ReadClock])))"
  using assms
  by (subst monitoring_loop.simps)
     (simp add: now_def is_target_time_reached_def case_prod_beta clock_reads_def)

subsection \<open>Configuration\<close>



lemma script_guard_refuses_unset_environment:
  "missing_vars Map.empty = required_env_vars"
  by (simp add: missing_vars_def required_env_vars_def)



text \<open>
  The constructor on its own does not see that a variable is unset: \<^verbatim>\<open>os.getenv\<close>
  gives it the test placeholder of \<^verbatim>\<open>__init__\<close>. Neither entry point of the
  repository calls it so: the script exits at its guard, and the trigger endpoint sets
  the variables first.
\<close>

lemma init_alone_falls_back_to_placeholders:
  "init Map.empty =
     Inr \<lparr> access_token = ''test_access_token_here'',
           allowed_recipient = ''test_wallet_address_here'',
           app_id = ''test_app_id_here'',
           app_secret = ''test_app_secret_here'',
           pi_api_base_url = ''https://api.minepi.com'',
           sandbox_mode = False,
           wallet_address = JNull,
           user_uid = JNull \<rparr>"
  by (simp add: init_def getenv_def lower_false validate_configuration_def)

lemma trigger_sets_every_required_variable:
  assumes "token \<noteq> []"
  shows "missing_vars (trigger_environ token environ) = []"
    and "init (trigger_environ token environ) =
           Inr \<lparr> access_token = token,
                 allowed_recipient = ''pi_1abc234...yourrecipient'',
                 app_id = ''your_app_id_here'',
                 app_secret = ''your_app_secret_here'',
                 pi_api_base_url = ''https://api.sandbox.minepi.com'',
                 sandbox_mode = True,
                 wallet_address = JNull,
                 user_uid = JNull \<rparr>"
  using assms
  by (simp_all add: missing_vars_def required_env_vars_def trigger_environ_def init_def getenv_def
        lower_def lower_char_def validate_configuration_def)

subsection \<open>Runs at the edges of the properties\<close>

text \<open>
  The loop tests verification before cancellation: a poll that reports both is
  completed.
\<close>

lemma verified_and_cancelled_poll_is_completed:
  "execute_transfer verified_cancelled_env
     signed_in_bot (allowed_recipient signed_in_bot) TRANSFER_AMOUNT []
   = (True,
      [Request (PostPayment (allowed_recipient signed_in_bot) TRANSFER_AMOUNT
                  (transfer_memo verified_cancelled_env TRANSFER_AMOUNT) (JStr ''user-1'')),
       Request (PostApprove (JStr ''pay-1'')),
       Request (GetPayment (JStr ''pay-1'')),
       Request (PostComplete (JStr ''pay-1''))])"
  by (simp add: execute_transfer_def create_payment_def validate_recipient_address_def send_def
        next_response_def verified_cancelled_env_def workflow_env_def signed_in_bot_def sample_bot_def offline_env_def
        approve_payment_def poll_loop.simps max_attempts_def poll_once_def get_payment_status_def
        verified_cancelled_status_def complete_payment_def complete_payment_internal_def
        transfer_memo_def)

text \<open>
  A body outside the platform's contract (here a status that is a string) makes
  \<^verbatim>\<open>.get\<close> raise; \<^verbatim>\<open>execute_transfer\<close> catches it and returns after that poll.
\<close>

lemma malformed_status_stops_polling:
  "execute_transfer malformed_env
     signed_in_bot (allowed_recipient signed_in_bot) TRANSFER_AMOUNT []
   = (False,
      [Request (PostPayment (allowed_recipient signed_in_bot) TRANSFER_AMOUNT
                  (transfer_memo malformed_env TRANSFER_AMOUNT) (JStr ''user-1'')),
       Request (PostApprove (JStr ''pay-1'')),
       Request (GetPayment (JStr ''pay-1''))])"
  by (simp add: execute_transfer_def create_payment_def validate_recipient_address_def send_def
        next_response_def malformed_env_def workflow_env_def signed_in_bot_def sample_bot_def offline_env_def
        approve_payment_def poll_loop.simps max_attempts_def poll_once_def get_payment_status_def
        transfer_memo_def)

text \<open>
  Before the deadline a failed cycle is followed by a sleep of 300 units (more than
  five minutes to go) or 60 units, and by another iteration.
\<close>

lemma monitoring_loop_not_reached:
  assumes "clock e (clock_reads tr + 1) < TARGET_DATETIME"
    and "check_and_transfer e self (tr @ [ReadClock, ReadClock]) = (False, self1, tr1)"
  shows "monitoring_loop e self tr =
           monitoring_loop e self1
             (tr1 @ [Sleep (if TARGET_DATETIME - clock e (clock_reads tr) > 300 then 300 else 60)])"
  using assms
  by (subst monitoring_loop.simps)
     (simp add: now_def is_target_time_reached_def clock_reads_def)

section \<open>The recipient guard\<close>

text \<open>
  C1. For every recipient different from the configured allowed recipient (plain
  string inequality, no normalisation), the guard raises, \<^verbatim>\<open>create_payment\<close>
  returns \<^verbatim>\<open>None\<close>, and the trace is left as it was: no request of any kind, so
  no creation request, is sent for that recipient.
\<close>

theorem recipient_guard_blocks_creation:
  assumes "r \<noteq> allowed_recipient self"
  shows "validate_recipient_address self r = Inl ValueError
       \<and> create_payment e self r amount memo tr = (JNull, tr)"
  using assms by (simp add: validate_recipient_address_def create_payment_def)

theorem recipient_guard_blocks_creation_witness:
  "''GATTACKERADDRESS000000000001'' \<noteq> allowed_recipient sample_bot
   \<and> validate_recipient_address sample_bot ''GATTACKERADDRESS000000000001'' = Inl ValueError
   \<and> create_payment offline_env sample_bot ''GATTACKERADDRESS000000000001'' TRANSFER_AMOUNT
       ''memo'' []
       = (JNull, [])"
proof -
  have ne: "''GATTACKERADDRESS000000000001'' \<noteq> allowed_recipient sample_bot"
    by (simp add: sample_bot_def)
  from recipient_guard_blocks_creation [OF ne] ne show ?thesis by simp
qed

section \<open>The polling loop\<close>

text \<open>
  C2, as stated, fails. With a payment that every poll reports verified and not
  completed, and a platform that rejects the first completion call and accepts the
  second, one \<^verbatim>\<open>execute_transfer\<close> calls \<^verbatim>\<open>completePayment\<close> twice and returns
  \<^verbatim>\<open>True\<close>: after the failed call the loop falls through to
  \<^verbatim>\<open>attempt += 1\<close>, sleeps, and polls again.
\<close>

theorem failed_completion_retried_counterexample:
  "execute_transfer retry_env signed_in_bot (allowed_recipient signed_in_bot) TRANSFER_AMOUNT []
     = (True,
        [Request (PostPayment (allowed_recipient signed_in_bot) TRANSFER_AMOUNT
                    (transfer_memo retry_env TRANSFER_AMOUNT) (JStr ''user-1'')),
         Request (PostApprove (JStr ''pay-1'')),
         Request (GetPayment (JStr ''pay-1'')),
         Request (PostComplete (JStr ''pay-1'')),
         Sleep 10,
         Request (GetPayment (JStr ''pay-1'')),
         Request (PostComplete (JStr ''pay-1''))])"
  by (simp add: execute_transfer_def create_payment_def validate_recipient_address_def send_def
        next_response_def retry_env_def workflow_env_def signed_in_bot_def sample_bot_def
        approve_payment_def poll_loop.simps max_attempts_def poll_once_def get_payment_status_def
        verified_status_def complete_payment_def complete_payment_internal_def cancelled_check_def)

text \<open>
  C2, amended. When a poll reports the payment verified and not developer-completed,
  the completion call fails, and that poll does not also report a cancellation, the
  loop does not return: it sleeps 10 units and goes on with the next attempt, if one
  of the 60 is left. Every
  poll that reports verified-and-uncompleted, the first or a later one, is followed by
  a completion call. In one \<^verbatim>\<open>execute_transfer\<close> there is at most one completion
  call per status poll and there are at most 60 polls. (The loop reads the
  \<^verbatim>\<open>transaction\<close> field before it completes; it is taken to be absent or an
  object.)
\<close>

theorem failed_completion_is_retried:
  "(a < 60 \<and> reports_verified_uncompleted (nth_status e tr 0)
      \<and> has_transaction_record (nth_status e tr 0)
      \<and> completion_fails (next_response e tr Complete)
      \<and> \<not> reports_cancelled (nth_status e tr 0)
    \<longrightarrow> poll_loop e pid a tr =
          poll_loop e pid (a + 1)
            (tr @ [Request (GetPayment pid), Request (PostComplete pid), Sleep 10]))
   \<and> (reports_verified_uncompleted (nth_status e tr 0)
      \<and> has_transaction_record (nth_status e tr 0)
    \<longrightarrow> snd (poll_once e pid tr)
          = tr @ [Request (GetPayment pid), Request (PostComplete pid)])
   \<and> (\<exists>n m. calls Status (snd (execute_transfer e self r amount tr0)) = calls Status tr0 + n
         \<and> calls Complete (snd (execute_transfer e self r amount tr0)) = calls Complete tr0 + m
         \<and> m \<le> n \<and> n \<le> 60)"
  using poll_loop_retry_step [of a e tr pid] execute_transfer_counts [of e self r amount tr0]
    poll_once_verified [OF refl, of e tr pid]
  by (simp add: max_attempts_def nth_status_0)

theorem failed_completion_is_retried_witness:
  "(0::nat) < 60
   \<and> reports_verified_uncompleted (nth_status retry_env [] 0)
   \<and> has_transaction_record (nth_status retry_env [] 0)
   \<and> completion_fails (next_response retry_env [] Complete)
   \<and> \<not> reports_cancelled (nth_status retry_env [] 0)
   \<and> poll_loop retry_env (JStr ''pay-1'') 0 [] =
       poll_loop retry_env (JStr ''pay-1'') (0 + 1)
         ([] @ [Request (GetPayment (JStr ''pay-1'')), Request (PostComplete (JStr ''pay-1'')), Sleep 10])
   \<and> snd (poll_once retry_env (JStr ''pay-1'') [])
       = [] @ [Request (GetPayment (JStr ''pay-1'')), Request (PostComplete (JStr ''pay-1''))]
   \<and> (\<exists>n m. calls Status (snd (execute_transfer retry_env signed_in_bot
                  (allowed_recipient signed_in_bot) TRANSFER_AMOUNT [])) = calls Status [] + n
         \<and> calls Complete (snd (execute_transfer retry_env signed_in_bot
                  (allowed_recipient signed_in_bot) TRANSFER_AMOUNT [])) = calls Complete [] + m
         \<and> m \<le> n \<and> n \<le> 60)"
proof -
  have h: "(0::nat) < 60
     \<and> reports_verified_uncompleted (nth_status retry_env [] 0)
     \<and> has_transaction_record (nth_status retry_env [] 0)
     \<and> completion_fails (next_response retry_env [] Complete)
     \<and> \<not> reports_cancelled (nth_status retry_env [] 0)"
    by (simp add: nth_status_def retry_env_def workflow_env_def payment_status_of_def
          verified_status_def reports_verified_uncompleted_def reports_cancelled_def
          status_flag_def has_transaction_record_def completion_fails_def next_response_def)
  from failed_completion_is_retried [of 0 retry_env "[]" "JStr ''pay-1''" signed_in_bot
      "allowed_recipient signed_in_bot" TRANSFER_AMOUNT "[]"] h
  show ?thesis by blast
qed

text \<open>
  C3. Once the payment is created and approved, if each of the 60 polls is a failed
  poll or a well-formed status that reports neither verified-and-uncompleted nor
  cancelled, \<^verbatim>\<open>execute_transfer\<close> returns \<^verbatim>\<open>False\<close> after exactly 60 status
  polls, each followed by a sleep of 10 units; nothing else is added to the trace, so
  there is no 61st poll.
\<close>

theorem sixty_polls_then_timeout:
  assumes c: "create_payment e self r amount (transfer_memo e amount) tr = (pid, tr1)"
    and p: "truthy pid"
    and a: "approve_payment e pid tr1 = (True, tr2)"
    and s: "\<forall>i<60. well_formed_status (nth_status e tr i)
              \<and> \<not> reports_verified_uncompleted (nth_status e tr i)
              \<and> \<not> reports_cancelled (nth_status e tr i)"
  shows "execute_transfer e self r amount tr
           = (False, tr2 @ concat (replicate 60 [Request (GetPayment pid), Sleep 10]))
       \<and> calls Status (snd (execute_transfer e self r amount tr)) = calls Status tr + 60"
proof -
  have t1: "calls Status tr1 = calls Status tr"
    using create_payment_calls [of Status e self r amount "transfer_memo e amount" tr] c by simp
  have t2: "tr2 = tr1 @ [Request (PostApprove pid)]"
    using approve_payment_trace [of e pid tr1] a by simp
  then have t: "calls Status tr2 = calls Status tr" using t1 by simp
  have "poll_loop e pid 0 tr2 =
      (False, tr2 @ concat (replicate (max_attempts - 0) [Request (GetPayment pid), Sleep 10]))"
    using s by (intro poll_loop_pending) (simp add: nth_status_cong [OF t] max_attempts_def)
  then have e: "execute_transfer e self r amount tr
      = (False, tr2 @ concat (replicate 60 [Request (GetPayment pid), Sleep 10]))"
    using c p a by (simp add: execute_transfer_def max_attempts_def)
  have "calls Status (concat (replicate n [Request (GetPayment pid), Sleep 10])) = n" for n
    by (induction n) simp_all
  then show ?thesis using e t by simp
qed

theorem sixty_polls_then_timeout_witness:
  "execute_transfer pending_env signed_in_bot (allowed_recipient signed_in_bot) TRANSFER_AMOUNT []
     = (False,
        [Request (PostPayment (allowed_recipient signed_in_bot) TRANSFER_AMOUNT
                    (transfer_memo pending_env TRANSFER_AMOUNT) (JStr ''user-1'')),
         Request (PostApprove (JStr ''pay-1''))]
        @ concat (replicate 60 [Request (GetPayment (JStr ''pay-1'')), Sleep 10]))
   \<and> calls Status (snd (execute_transfer pending_env signed_in_bot
        (allowed_recipient signed_in_bot) TRANSFER_AMOUNT [])) = calls Status [] + 60"
proof -
  let ?create = "Request (PostPayment (allowed_recipient signed_in_bot) TRANSFER_AMOUNT
                    (transfer_memo pending_env TRANSFER_AMOUNT) (JStr ''user-1''))"
  have c: "create_payment pending_env signed_in_bot (allowed_recipient signed_in_bot)
      TRANSFER_AMOUNT (transfer_memo pending_env TRANSFER_AMOUNT) [] = (JStr ''pay-1'', [?create])"
    by (simp add: create_payment_def validate_recipient_address_def send_def next_response_def
          pending_env_def workflow_env_def signed_in_bot_def sample_bot_def)
  have p: "truthy (JStr ''pay-1'')" by simp
  have a: "approve_payment pending_env (JStr ''pay-1'') [?create]
      = (True, [?create, Request (PostApprove (JStr ''pay-1''))])"
    by (simp add: approve_payment_def send_def next_response_def pending_env_def workflow_env_def)
  have s: "\<forall>i<60. well_formed_status (nth_status pending_env [] i)
              \<and> \<not> reports_verified_uncompleted (nth_status pending_env [] i)
              \<and> \<not> reports_cancelled (nth_status pending_env [] i)"
    by (simp add: nth_status_def pending_env_def workflow_env_def payment_status_of_def
          pending_status_def well_formed_status_def reports_verified_uncompleted_def
          reports_cancelled_def status_flag_def)
  show ?thesis by (rule sixty_polls_then_timeout [OF c p a s])
qed

text \<open>
  C5. If some poll \<open>k\<close> reports \<^verbatim>\<open>cancelled\<close> or \<^verbatim>\<open>user_cancelled\<close> and no poll up
  to and including \<open>k\<close> reports verified-and-uncompleted, \<^verbatim>\<open>execute_transfer\<close>
  returns \<^verbatim>\<open>False\<close> and sends no completion request. (The loop tests
  verification before cancellation, so a poll that reports both at once is a verified
  poll, not a cancellation before verification.)
\<close>

theorem cancelled_before_verification:
  assumes "reports_cancelled (nth_status e tr k)"
    and "\<forall>i\<le>k. \<not> reports_verified_uncompleted (nth_status e tr i)"
  shows "fst (execute_transfer e self r amount tr) = False
       \<and> calls Complete (snd (execute_transfer e self r amount tr)) = calls Complete tr"
proof -
  obtain pid tr1 where c: "create_payment e self r amount (transfer_memo e amount) tr = (pid, tr1)"
    by (cases "create_payment e self r amount (transfer_memo e amount) tr")
  obtain ok tr2 where a: "approve_payment e pid tr1 = (ok, tr2)"
    by (cases "approve_payment e pid tr1")
  have s1: "calls Status tr1 = calls Status tr" and c1: "calls Complete tr1 = calls Complete tr"
    using create_payment_calls [of _ e self r amount "transfer_memo e amount" tr] c by simp_all
  have t2: "tr2 = tr1 @ [Request (PostApprove pid)]"
    using approve_payment_trace [of e pid tr1] a by simp
  then have s2: "calls Status tr2 = calls Status tr" and c2: "calls Complete tr2 = calls Complete tr"
    using s1 c1 by simp_all
  have "fst (poll_loop e pid 0 tr2) = False
      \<and> calls Complete (snd (poll_loop e pid 0 tr2)) = calls Complete tr2"
    using assms by (intro poll_loop_cancelled [of e tr2 k]) (simp_all add: nth_status_cong [OF s2])
  then show ?thesis using c a c1 c2 by (simp add: execute_transfer_def)
qed

theorem cancelled_before_verification_witness:
  "reports_cancelled (nth_status cancelled_env [] 2)
   \<and> \<not> reports_verified_uncompleted (nth_status cancelled_env [] 0)
   \<and> \<not> reports_verified_uncompleted (nth_status cancelled_env [] 1)
   \<and> \<not> reports_verified_uncompleted (nth_status cancelled_env [] 2)
   \<and> fst (execute_transfer cancelled_env signed_in_bot (allowed_recipient signed_in_bot)
        TRANSFER_AMOUNT []) = False
   \<and> calls Complete (snd (execute_transfer cancelled_env signed_in_bot
        (allowed_recipient signed_in_bot) TRANSFER_AMOUNT [])) = calls Complete []"
proof -
  have v: "\<not> reports_verified_uncompleted (nth_status cancelled_env [] i)" for i
    by (simp add: nth_status_def cancelled_env_def workflow_env_def payment_status_of_def
          pending_status_def cancelled_status_def reports_verified_uncompleted_def status_flag_def)
  have c: "reports_cancelled (nth_status cancelled_env [] 2)"
    by (simp add: nth_status_def cancelled_env_def workflow_env_def payment_status_of_def
          cancelled_status_def reports_cancelled_def status_flag_def)
  from v have a: "\<forall>i\<le>2. \<not> reports_verified_uncompleted (nth_status cancelled_env [] i)" by blast
  from cancelled_before_verification [OF c a] v c show ?thesis by blast
qed

section \<open>The balance gate\<close>



section \<open>The scheduler loop\<close>

text \<open>
  C6. An iteration of the monitoring loop reads the clock twice; when the second
  reading, the one \<^verbatim>\<open>is_target_time_reached\<close> compares, is at or past the deadline,
  the loop runs \<^verbatim>\<open>check_and_transfer\<close> once and returns with its outcome, whatever
  it is. That final attempt creates at most one payment; after it the loop neither
  sleeps its 300 or 60 units nor reads the clock for another cycle. (The 10-unit
  sleeps between status polls belong to the attempt itself.)
\<close>

theorem deadline_reached_one_final_attempt:
  assumes "clock e (clock_reads tr + 1) \<ge> TARGET_DATETIME"
  shows "\<exists>ok self' tr'.
           check_and_transfer e self (tr @ [ReadClock, ReadClock]) = (ok, self', tr')
         \<and> monitoring_loop e self tr = Some (self', tr')
         \<and> calls Create tr' \<le> calls Create tr + 1
         \<and> scheduler_sleeps tr' = scheduler_sleeps tr
         \<and> clock_reads tr' = clock_reads tr + 2"
proof -
  let ?tr = "tr @ [ReadClock, ReadClock]"
  obtain ok self' tr' where c: "check_and_transfer e self ?tr = (ok, self', tr')"
    by (cases "check_and_transfer e self ?tr")
  have x: "extends cycle_event ?tr tr'"
    using check_and_transfer_facts(1) [of ?tr e self] c by simp
  have n: "calls Create tr' \<le> calls Create tr + 1"
    using check_and_transfer_facts(2) [of e self ?tr] c by simp
  have s: "scheduler_sleeps tr' = scheduler_sleeps tr"
    using extends_scheduler_sleeps(1) [OF x] by (simp add: scheduler_sleeps_def)
  have r: "clock_reads tr' = clock_reads tr + 2"
    using extends_scheduler_sleeps(2) [OF x] by (simp add: clock_reads_def)
  have "monitoring_loop e self tr = Some (self', tr')"
    using monitoring_loop_reached [OF assms, of self] c by simp
  with c n s r show ?thesis by blast
qed

theorem deadline_reached_one_final_attempt_witness:
  "clock late_env (clock_reads [] + 1) \<ge> TARGET_DATETIME
   \<and> check_and_transfer late_env signed_in_bot ([] @ [ReadClock, ReadClock])
       = (False, signed_in_bot,
          [ReadClock, ReadClock, Request GetPendingPayments,
           Request (GetWalletBalance (JStr ''GWALLET''))])
   \<and> monitoring_loop late_env signed_in_bot []
       = Some (signed_in_bot,
               [ReadClock, ReadClock, Request GetPendingPayments,
                Request (GetWalletBalance (JStr ''GWALLET''))])"
proof -
  have h: "clock late_env (clock_reads [] + 1) \<ge> TARGET_DATETIME"
    by (simp add: late_env_def offline_env_def TARGET_DATETIME_def)
  have c: "check_and_transfer late_env signed_in_bot ([] @ [ReadClock, ReadClock])
       = (False, signed_in_bot,
          [ReadClock, ReadClock, Request GetPendingPayments,
           Request (GetWalletBalance (JStr ''GWALLET''))])"
    by (simp add: check_and_transfer_def unlock_and_transfer_def confirm_unlock_def
          get_pending_payments_def get_available_balance_def get_wallet_balance_def send_def
          next_response_def late_env_def offline_env_def signed_in_bot_def sample_bot_def
          zero_is_insufficient)
  from deadline_reached_one_final_attempt [OF h, of signed_in_bot] c h show ?thesis by auto
qed

section \<open>The platform client\<close>

text \<open>
  C7, as stated, fails in its second half. \<^verbatim>\<open>get_user_info\<close> answers a network-level
  error and an HTTP 500 with the same \<^verbatim>\<open>None\<close>, leaving the same state: the caller
  cannot tell the two apart. (Every operation logs the cause and returns one failure
  value; none has a second one.)
\<close>

theorem failure_kinds_indistinguishable_counterexample:
  "network_error (next_response offline_env [] Me)
   \<and> application_rejection [200] (next_response rejecting_env [] Me)
   \<and> get_user_info offline_env sample_bot [] = (Inr JNull, sample_bot, [Request GetMe])
   \<and> get_user_info rejecting_env sample_bot [] = (Inr JNull, sample_bot, [Request GetMe])"
  by (simp add: get_user_info_def send_def next_response_def offline_env_def rejecting_env_def
        network_error_def application_rejection_def)

text \<open>
  C7, amended. On a network-level error and on a non-success HTTP response alike, each
  of the seven operations returns its failure value (\<^verbatim>\<open>None\<close>, or \<^verbatim>\<open>False\<close> for
  approve and complete) and raises nothing; the value is the same in both cases. (The
  balance lookup sends its request only with a wallet address, the creation only for
  the allowed recipient; success is 200, and 200 or 201 for the creation.)
\<close>

theorem platform_failures_return_failure_value:
  "(network_error (next_response e tr Me) \<or> application_rejection [200] (next_response e tr Me)
      \<longrightarrow> get_user_info e self tr = (Inr JNull, self, tr @ [Request GetMe]))
   \<and> (truthy (wallet_address self)
       \<and> (network_error (next_response e tr Balance)
          \<or> application_rejection [200] (next_response e tr Balance))
      \<longrightarrow> get_wallet_balance e self tr
            = (JNull, tr @ [Request (GetWalletBalance (wallet_address self))]))
   \<and> (network_error (next_response e tr Pending)
       \<or> application_rejection [200] (next_response e tr Pending)
      \<longrightarrow> get_pending_payments e self tr = (Inr JNull, tr @ [Request GetPendingPayments]))
   \<and> (r = allowed_recipient self
       \<and> (network_error (next_response e tr Create)
          \<or> application_rejection [200, 201] (next_response e tr Create))
      \<longrightarrow> create_payment e self r amount memo tr
            = (JNull, tr @ [Request (PostPayment r amount memo (user_uid self))]))
   \<and> (network_error (next_response e tr Approve)
       \<or> application_rejection [200] (next_response e tr Approve)
      \<longrightarrow> approve_payment e pid tr = (False, tr @ [Request (PostApprove pid)]))
   \<and> (network_error (next_response e tr Status)
       \<or> application_rejection [200] (next_response e tr Status)
      \<longrightarrow> get_payment_status e pid tr = (JNull, tr @ [Request (GetPayment pid)]))
   \<and> (network_error (next_response e tr Complete)
       \<or> application_rejection [200] (next_response e tr Complete)
      \<longrightarrow> complete_payment_internal e pid tr = (False, tr @ [Request (PostComplete pid)]))"
  using get_user_info_fails [of e tr self] get_wallet_balance_fails [of self e tr]
    get_pending_payments_fails [of e tr self] create_payment_fails [of r self e tr amount memo]
    approve_payment_fails [of e tr pid] get_payment_status_fails [of e tr pid]
    complete_payment_internal_fails [of e tr pid]
  by blast

theorem platform_failures_return_failure_value_witness:
  "network_error (next_response offline_env [] Me)
   \<and> get_user_info offline_env signed_in_bot [] = (Inr JNull, signed_in_bot, [] @ [Request GetMe])
   \<and> truthy (wallet_address signed_in_bot)
   \<and> network_error (next_response offline_env [] Balance)
   \<and> get_wallet_balance offline_env signed_in_bot []
        = (JNull, [] @ [Request (GetWalletBalance (wallet_address signed_in_bot))])
   \<and> network_error (next_response offline_env [] Pending)
   \<and> get_pending_payments offline_env signed_in_bot [] = (Inr JNull, [] @ [Request GetPendingPayments])
   \<and> network_error (next_response offline_env [] Create)
   \<and> create_payment offline_env signed_in_bot (allowed_recipient signed_in_bot) TRANSFER_AMOUNT
        ''memo'' []
        = (JNull, [] @ [Request (PostPayment (allowed_recipient signed_in_bot) TRANSFER_AMOUNT ''memo''
                                  (user_uid signed_in_bot))])
   \<and> network_error (next_response offline_env [] Approve)
   \<and> approve_payment offline_env (JStr ''pay-1'') []
        = (False, [] @ [Request (PostApprove (JStr ''pay-1''))])
   \<and> network_error (next_response offline_env [] Status)
   \<and> get_payment_status offline_env (JStr ''pay-1'') []
        = (JNull, [] @ [Request (GetPayment (JStr ''pay-1''))])
   \<and> network_error (next_response offline_env [] Complete)
   \<and> complete_payment_internal offline_env (JStr ''pay-1'') []
        = (False, [] @ [Request (PostComplete (JStr ''pay-1''))])"
proof -
  have n: "network_error (next_response offline_env tr ep)" for tr ep
    by (simp add: network_error_def next_response_def offline_env_def)
  have w: "truthy (wallet_address signed_in_bot)"
    by (simp add: signed_in_bot_def)
  from platform_failures_return_failure_value [of offline_env "[]" signed_in_bot "allowed_recipient signed_in_bot"
      TRANSFER_AMOUNT "''memo''" "JStr ''pay-1''"] n w
  show ?thesis by blast
qed

section \<open>Configuration\<close>



section \<open>A balance that cannot be read\<close>

text \<open>
  C9. When the wallet-balance lookup fails (no wallet address in the session, a
  network error, or a response other than 200), \<^verbatim>\<open>get_wallet_balance\<close> returns
  \<^verbatim>\<open>None\<close> and \<^verbatim>\<open>get_available_balance\<close> returns 0.0; and a
  \<^verbatim>\<open>check_and_transfer\<close> whose balance read fails in one of these ways (\<open>self'\<close>
  is the session the cycle ends with, which is the one the balance is read with)
  returns \<^verbatim>\<open>False\<close> without sending a creation request.
\<close>

theorem failed_balance_read_blocks_transfer:
  "(\<not> truthy (wallet_address self) \<or> network_error (next_response e tr Balance)
      \<or> application_rejection [200] (next_response e tr Balance)
     \<longrightarrow> fst (get_wallet_balance e self tr) = JNull
        \<and> fst (get_available_balance e self tr) = Inr (Fin 0))
   \<and> (check_and_transfer e self tr = (ok, self', tr')
       \<and> (\<not> truthy (wallet_address self') \<or> network_error (next_response e tr Balance)
            \<or> application_rejection [200] (next_response e tr Balance))
     \<longrightarrow> ok = False \<and> calls Create tr' = calls Create tr)"
proof (intro conjI impI)
  assume "\<not> truthy (wallet_address self) \<or> network_error (next_response e tr Balance)
      \<or> application_rejection [200] (next_response e tr Balance)"
  then show "fst (get_wallet_balance e self tr) = JNull"
    and "fst (get_available_balance e self tr) = Inr (Fin 0)"
    by (rule get_available_balance_failed)+
next
  assume a: "check_and_transfer e self tr = (ok, self', tr')
       \<and> (\<not> truthy (wallet_address self') \<or> network_error (next_response e tr Balance)
            \<or> application_rejection [200] (next_response e tr Balance))"
  have gate: "unlock_and_transfer e s t = (ok, self', tr') \<Longrightarrow> calls Balance t = calls Balance tr
      \<Longrightarrow> calls Create t = calls Create tr \<Longrightarrow> ok = False \<and> calls Create tr' = calls Create tr"
    for s t
  proof -
    assume u: "unlock_and_transfer e s t = (ok, self', tr')"
      and cb: "calls Balance t = calls Balance tr" and cc: "calls Create t = calls Create tr"
    have s: "self' = s" using unlock_and_transfer_facts(1) [of e s t] u by simp
    obtain unlocked tr1 where cu: "confirm_unlock e s t = (unlocked, tr1)"
      by (cases "confirm_unlock e s t")
    obtain rb tr2 where gb: "get_available_balance e s tr1 = (rb, tr2)"
      by (cases "get_available_balance e s tr1")
    have "next_response e tr1 Balance = next_response e tr Balance"
      using unlock_balance_calls(2) [OF cu gb] cb by (simp add: next_response_def)
    then have "fst (get_available_balance e s tr1) = Inr (Fin 0)"
      using a s by (intro get_available_balance_failed(2)) simp
    then have rb: "rb = Inr (Fin 0)" using gb by simp
    have "unlock_and_transfer e s t = (False, s, tr2)"
      using unlock_and_transfer_eq(1) [OF cu gb [unfolded rb]]
      by (simp add: zero_is_insufficient)
    then show ?thesis using u unlock_balance_calls(1) [OF cu gb] cc by simp
  qed
  obtain ru self1 tr1 where g: "get_user_info e self tr = (ru, self1, tr1)"
    by (cases "get_user_info e self tr")
  have t1: "tr1 = tr @ [Request GetMe]" using get_user_info_trace [of e self tr] g by simp
  show "ok = False" and "calls Create tr' = calls Create tr"
    using a g gate [of self tr] gate [of self1 tr1] t1
    by (cases ru; auto simp add: check_and_transfer_def split: if_splits)+
qed

theorem failed_balance_read_blocks_transfer_witness:
  "network_error (next_response offline_env [] Balance)
   \<and> fst (get_wallet_balance offline_env signed_in_bot []) = JNull
   \<and> fst (get_available_balance offline_env signed_in_bot []) = Inr (Fin 0)
   \<and> check_and_transfer offline_env signed_in_bot []
       = (False, signed_in_bot,
          [Request GetPendingPayments, Request (GetWalletBalance (JStr ''GWALLET''))])
   \<and> calls Create [Request GetPendingPayments, Request (GetWalletBalance (JStr ''GWALLET''))]
       = calls Create []"
proof -
  have n: "network_error (next_response offline_env [] Balance)"
    by (simp add: network_error_def next_response_def offline_env_def)
  have c: "check_and_transfer offline_env signed_in_bot []
       = (False, signed_in_bot,
          [Request GetPendingPayments, Request (GetWalletBalance (JStr ''GWALLET''))])"
    by (simp add: check_and_transfer_def unlock_and_transfer_def confirm_unlock_def
          get_pending_payments_def get_available_balance_def get_wallet_balance_def send_def
          next_response_def offline_env_def signed_in_bot_def sample_bot_def
          zero_is_insufficient)
  from failed_balance_read_blocks_transfer [of signed_in_bot offline_env "[]" False signed_in_bot
      "[Request GetPendingPayments, Request (GetWalletBalance (JStr ''GWALLET''))]"] n c
  show ?thesis by blast
qed

section \<open>The unlock-confirmation sweep\<close>

text \<open>
  C10. The requests that \<^verbatim>\<open>confirm_unlock\<close> sends after listing the pending
  payments are completion requests for those payments it visits whose status carries
  a \<^verbatim>\<open>developer_completed\<close> entry with a falsy value, in order, and nothing else;
  the visit stops early only at an entry that is not a payment record, and covers the
  whole list when every entry is one. A payment with no status, or with a status
  that lacks the flag, is passed over without a request.
\<close>

theorem unlock_sweep_completes_only_explicit_false:
  "(\<exists>n\<le>length (reported_payments e tr).
       snd (confirm_unlock e self tr)
         = tr @ Request GetPendingPayments
              # map completion_request
                  (filter explicitly_uncompleted (take n (reported_payments e tr))))
   \<and> (list_all payment_record (reported_payments e tr) \<longrightarrow>
         snd (confirm_unlock e self tr)
           = tr @ Request GetPendingPayments
                # map completion_request (filter explicitly_uncompleted (reported_payments e tr)))
   \<and> (map_of kvs ''status'' = None
        \<or> (\<exists>st. map_of kvs ''status'' = Some (JObj st)
                \<and> map_of st ''developer_completed'' = None)
       \<longrightarrow> \<not> explicitly_uncompleted (JObj kvs)
          \<and> confirm_payments e (JObj kvs # rest) tr' = confirm_payments e rest tr')"
proof (intro conjI impI)
  let ?tr = "tr @ [Request GetPendingPayments]"
  have eq: "snd (confirm_unlock e self tr) = snd (confirm_payments e (reported_payments e tr) ?tr)"
    using confirm_unlock_eq [of e self tr] by blast
  from confirm_payments_trace [of "reported_payments e tr" e ?tr]
  show "\<exists>n\<le>length (reported_payments e tr).
       snd (confirm_unlock e self tr)
         = tr @ Request GetPendingPayments
              # map completion_request
                  (filter explicitly_uncompleted (take n (reported_payments e tr)))"
    using eq by simp
  show "snd (confirm_unlock e self tr)
           = tr @ Request GetPendingPayments
                # map completion_request (filter explicitly_uncompleted (reported_payments e tr))"
    if "list_all payment_record (reported_payments e tr)"
    using confirm_payments_all [OF that, of e ?tr] eq by simp
next
  assume a: "map_of kvs ''status'' = None
        \<or> (\<exists>st. map_of kvs ''status'' = Some (JObj st)
                \<and> map_of st ''developer_completed'' = None)"
  show "\<not> explicitly_uncompleted (JObj kvs)" by (rule lacks_flag_not_explicit(1) [OF a])
  show "confirm_payments e (JObj kvs # rest) tr' = confirm_payments e rest tr'"
    using lacks_flag_not_explicit [OF a] by (intro confirm_payments_skip) simp_all
qed

theorem unlock_sweep_completes_only_explicit_false_witness:
  "list_all payment_record (reported_payments unlock_env [])
   \<and> snd (confirm_unlock unlock_env signed_in_bot [])
       = [Request GetPendingPayments, Request (PostComplete (JStr ''pay-3''))]
   \<and> map_of [(''identifier'', JStr ''pay-1'')] ''status'' = None
   \<and> \<not> explicitly_uncompleted (JObj [(''identifier'', JStr ''pay-1'')])
   \<and> confirm_payments unlock_env [JObj [(''identifier'', JStr ''pay-1'')]] [] = (True, [])"
proof -
  have l: "list_all payment_record (reported_payments unlock_env [])"
    by (simp add: reported_payments_unlock_env payment_record_def)
  have m: "map_of [(''identifier'', JStr ''pay-1'')] ''status'' = None" by simp
  have f: "map completion_request (filter explicitly_uncompleted (reported_payments unlock_env []))
      = [Request (PostComplete (JStr ''pay-3''))]"
    by (simp add: reported_payments_unlock_env explicitly_uncompleted_def completion_request_def)
  from unlock_sweep_completes_only_explicit_false [of unlock_env "[]" signed_in_bot "[(''identifier'', JStr ''pay-1'')]" "[]" "[]"]
    l m f
  show ?thesis by simp
qed

end
